theory Spec2Isabelle
  imports Main
begin

section \<open>Strings and the standard-library helpers the tag parser calls\<close>

text \<open>
  A Go string is a sequence of bytes; it is modelled as a \<open>string\<close> (a list of 8-bit
  characters).  The helpers below are the functions of package \<open>strings\<close> that
  \<open>Tag.decompose\<close>, \<open>parseArg\<close>, \<open>parseFlag\<close> and \<open>sanitizeHelp\<close> call.
\<close>

definition byte :: "char \<Rightarrow> nat" where
  "byte c = of_char c"

text \<open>\<open>strings.HasPrefix\<close> and \<open>strings.CutPrefix\<close>.\<close>

definition HasPrefix :: "string \<Rightarrow> string \<Rightarrow> bool" where
  "HasPrefix s p = (take (length p) s = p)"

definition CutPrefix :: "string \<Rightarrow> string \<Rightarrow> string \<times> bool" where
  "CutPrefix s p = (if HasPrefix s p then (drop (length p) s, True) else (s, False))"

text \<open>
  \<open>strings.Split(s, ";")\<close>: the pieces between the separators, one more than there are
  separators (a string without separator is its own single piece).
\<close>

fun Split :: "string \<Rightarrow> char \<Rightarrow> string list" where
  "Split [] sep = [[]]"
| "Split (x # xs) sep =
     (if x = sep then [] # Split xs sep
      else (case Split xs sep of [] \<Rightarrow> [[x]] | piece # pieces \<Rightarrow> (x # piece) # pieces))"

text \<open>
  \<open>strings.TrimSpace\<close> removes the white space runes of Unicode from both ends of the
  UTF-8 text.  On bytes: the six ASCII white space characters, and the UTF-8 encodings of
  U+0085, U+00A0, U+1680, U+2000 to U+200A, U+2028, U+2029, U+202F, U+205F and U+3000.
  Any other byte sequence (also an ill-formed one) decodes to a rune that is not white
  space and stops the trimming.
\<close>

definition asciiSpace :: "nat \<Rightarrow> bool" where
  "asciiSpace b = (b = 9 \<or> b = 10 \<or> b = 11 \<or> b = 12 \<or> b = 13 \<or> b = 32)"

definition space2 :: "nat \<Rightarrow> nat \<Rightarrow> bool" where
  "space2 b0 b1 = (b0 = 0xC2 \<and> (b1 = 0x85 \<or> b1 = 0xA0))"

definition space3 :: "nat \<Rightarrow> nat \<Rightarrow> nat \<Rightarrow> bool" where
  "space3 b0 b1 b2 =
     ((b0 = 0xE1 \<and> b1 = 0x9A \<and> b2 = 0x80)
    \<or> (b0 = 0xE2 \<and> b1 = 0x80 \<and> 0x80 \<le> b2 \<and> b2 \<le> 0x8A)
    \<or> (b0 = 0xE2 \<and> b1 = 0x80 \<and> (b2 = 0xA8 \<or> b2 = 0xA9 \<or> b2 = 0xAF))
    \<or> (b0 = 0xE2 \<and> b1 = 0x81 \<and> b2 = 0x9F)
    \<or> (b0 = 0xE3 \<and> b1 = 0x80 \<and> b2 = 0x80))"

text \<open>Width in bytes of the white space rune a text starts with; 0 when it starts with none.\<close>

fun leadingSpace :: "string \<Rightarrow> nat" where
  "leadingSpace [] = 0"
| "leadingSpace [a] = (if asciiSpace (byte a) then 1 else 0)"
| "leadingSpace [a, b] =
     (if asciiSpace (byte a) then 1 else if space2 (byte a) (byte b) then 2 else 0)"
| "leadingSpace (a # b # c # s) =
     (if asciiSpace (byte a) then 1
      else if space2 (byte a) (byte b) then 2
      else if space3 (byte a) (byte b) (byte c) then 3 else 0)"

text \<open>The same for the rune a text ends with, read on the reversed text.\<close>

fun trailingSpace :: "string \<Rightarrow> nat" where
  "trailingSpace [] = 0"
| "trailingSpace [a] = (if asciiSpace (byte a) then 1 else 0)"
| "trailingSpace [a, b] =
     (if asciiSpace (byte a) then 1 else if space2 (byte b) (byte a) then 2 else 0)"
| "trailingSpace (a # b # c # s) =
     (if asciiSpace (byte a) then 1
      else if space2 (byte b) (byte a) then 2
      else if space3 (byte c) (byte b) (byte a) then 3 else 0)"

function TrimLeft :: "string \<Rightarrow> string" where
  "TrimLeft s = (if leadingSpace s = 0 then s else TrimLeft (drop (leadingSpace s) s))"
  by pat_completeness auto
termination
proof (relation "measure length")
  show "wf (measure length)" by simp
next
  fix s :: string
  assume "leadingSpace s \<noteq> 0"
  moreover have "leadingSpace s \<le> length s"
    by (induction s rule: leadingSpace.induct) simp_all
  ultimately show "(drop (leadingSpace s) s, s) \<in> measure length" by simp
qed

function TrimRightRev :: "string \<Rightarrow> string" where
  "TrimRightRev r = (if trailingSpace r = 0 then r else TrimRightRev (drop (trailingSpace r) r))"
  by pat_completeness auto
termination
proof (relation "measure length")
  show "wf (measure length)" by simp
next
  fix r :: string
  assume "trailingSpace r \<noteq> 0"
  moreover have "trailingSpace r \<le> length r"
    by (induction r rule: trailingSpace.induct) simp_all
  ultimately show "(drop (trailingSpace r) r, r) \<in> measure length" by simp
qed

declare TrimLeft.simps [simp del] TrimRightRev.simps [simp del]

definition TrimRight :: "string \<Rightarrow> string" where
  "TrimRight s = rev (TrimRightRev (rev s))"

definition TrimSpace :: "string \<Rightarrow> string" where
  "TrimSpace s = TrimRight (TrimLeft s)"

section \<open>Tag.decompose\<close>

type_synonym Tag = string

text \<open>
  The loop body of \<open>decompose\<close>: one component updates the triple \<open>(arg, def, flag)\<close>.
\<close>

definition decompose_component :: "string \<times> string \<times> string \<Rightarrow> string \<Rightarrow> string \<times> string \<times> string" where
  "decompose_component acc c0 =
     (case acc of (arg, def, flag) \<Rightarrow>
        let c = TrimSpace c0 in
        if snd (CutPrefix c ''arg:'') then (TrimSpace (fst (CutPrefix c ''arg:'')), def, flag)
        else if snd (CutPrefix c ''flag:'') then (arg, def, TrimSpace (fst (CutPrefix c ''flag:'')))
        else if snd (CutPrefix c ''default:'') then (arg, TrimSpace (fst (CutPrefix c ''default:'')), flag)
        else (arg, def, flag))"

definition decompose :: "Tag \<Rightarrow> string \<times> string \<times> string" where
  "decompose tag =
     (if tag = [] then ([], [], [])
      else foldl decompose_component ([], [], []) (Split tag (CHR '';'')))"

text \<open>\<open>Tag.Default\<close>: the pair \<open>(def, true)\<close> is \<open>Some def\<close>, the pair \<open>("", false)\<close> is \<open>None\<close>.\<close>

definition Default :: "Tag \<Rightarrow> string option" where
  "Default tag = (case decompose tag of (arg, def, flag) \<Rightarrow> if def \<noteq> [] then Some def else None)"

section \<open>Regular expressions\<close>

text \<open>
  The two expressions of the tag parser are matched by package \<open>regexp\<close>, whose
  \<open>FindStringSubmatch\<close> returns the leftmost match and, among the matches starting
  there, the one a backtracking search finds first: alternatives left to right,
  \<open>+\<close>, \<open>*\<close> and \<open>?\<close> greedy.  The matcher below is that search, on the syntax the
  two expressions use: repetition is applied to character classes only.  All classes
  are ASCII or the complement of one ASCII character, so matching bytes and matching
  UTF-8 runes give the same submatches.
\<close>

datatype regex =
    Chr "char \<Rightarrow> bool"
  | Rep1 "char \<Rightarrow> bool"
  | Rep0 "char \<Rightarrow> bool"
  | Cat regex regex
  | Alt regex regex
  | Opt regex
  | Cap nat regex
  | Bol
  | Eol

type_synonym caps = "nat \<Rightarrow> string option"

text \<open>
  \<open>rep P s k\<close>: consume as many characters of class \<open>P\<close> as possible and go on with
  \<open>k\<close> on the rest; when that fails give one character back and retry.
\<close>

fun rep :: "(char \<Rightarrow> bool) \<Rightarrow> string \<Rightarrow> (string \<Rightarrow> 'a option) \<Rightarrow> 'a option" where
  "rep P [] k = k []"
| "rep P (x # xs) k =
     (if P x then (case rep P xs k of Some r \<Rightarrow> Some r | None \<Rightarrow> k (x # xs))
      else k (x # xs))"

text \<open>
  \<open>rmatch re n s c k\<close>: match \<open>re\<close> at the front of the remaining text \<open>s\<close> (of a text
  of length \<open>n\<close>), with the submatches \<open>c\<close> recorded so far, and go on with \<open>k\<close>.
\<close>

fun rmatch :: "regex \<Rightarrow> nat \<Rightarrow> string \<Rightarrow> caps \<Rightarrow> (string \<Rightarrow> caps \<Rightarrow> caps option) \<Rightarrow> caps option" where
  "rmatch (Chr P) n s c k = (case s of [] \<Rightarrow> None | x # xs \<Rightarrow> if P x then k xs c else None)"
| "rmatch (Rep1 P) n s c k =
     (case s of [] \<Rightarrow> None | x # xs \<Rightarrow> if P x then rep P xs (\<lambda>r. k r c) else None)"
| "rmatch (Rep0 P) n s c k = rep P s (\<lambda>r. k r c)"
| "rmatch (Cat a b) n s c k = rmatch a n s c (\<lambda>r c'. rmatch b n r c' k)"
| "rmatch (Alt a b) n s c k =
     (case rmatch a n s c k of Some r \<Rightarrow> Some r | None \<Rightarrow> rmatch b n s c k)"
| "rmatch (Opt a) n s c k =
     (case rmatch a n s c k of Some r \<Rightarrow> Some r | None \<Rightarrow> k s c)"
| "rmatch (Cap i a) n s c k =
     rmatch a n s c (\<lambda>r c'. k r (c'(i \<mapsto> take (length s - length r) s)))"
| "rmatch Bol n s c k = (if length s = n then k s c else None)"
| "rmatch Eol n s c k = (if s = [] then k s c else None)"

fun NumSubexp :: "regex \<Rightarrow> nat" where
  "NumSubexp (Cat a b) = max (NumSubexp a) (NumSubexp b)"
| "NumSubexp (Alt a b) = max (NumSubexp a) (NumSubexp b)"
| "NumSubexp (Opt a) = NumSubexp a"
| "NumSubexp (Cap i a) = max i (NumSubexp a)"
| "NumSubexp _ = 0"

text \<open>
  The result slice of \<open>FindStringSubmatch\<close>: the whole match and one string per group,
  the empty string for a group that took no part in the match.
\<close>

definition submatches :: "regex \<Rightarrow> caps \<Rightarrow> string list" where
  "submatches re c = map (\<lambda>i. case c i of None \<Rightarrow> [] | Some v \<Rightarrow> v) [0 ..< Suc (NumSubexp re)]"

definition match_here :: "regex \<Rightarrow> nat \<Rightarrow> string \<Rightarrow> caps option" where
  "match_here re n s =
     rmatch re n s Map.empty (\<lambda>r c. Some (c(0 \<mapsto> take (length s - length r) s)))"

fun find_from :: "regex \<Rightarrow> nat \<Rightarrow> string \<Rightarrow> string list" where
  "find_from re n [] = (case match_here re n [] of Some c \<Rightarrow> submatches re c | None \<Rightarrow> [])"
| "find_from re n (x # xs) =
     (case match_here re n (x # xs) of Some c \<Rightarrow> submatches re c | None \<Rightarrow> find_from re n xs)"

text \<open>\<open>re.FindStringSubmatch(s)\<close>; the nil slice of "no match" is the empty list.\<close>

definition FindStringSubmatch :: "regex \<Rightarrow> string \<Rightarrow> string list" where
  "FindStringSubmatch re s = find_from re (length s) s"

text \<open>
  The character classes: \<^verbatim>\<open>\d\<close>, \<^verbatim>\<open>\s\<close>, \<^verbatim>\<open>[a-zA-Z]\<close>, \<^verbatim>\<open>[a-zA-Z0-9_-]\<close> and \<^verbatim>\<open>[a-zA-z]\<close>.
\<close>

definition isDigit :: "char \<Rightarrow> bool" where
  "isDigit c = (48 \<le> byte c \<and> byte c \<le> 57)"

definition reSpace :: "char \<Rightarrow> bool" where
  "reSpace c = (byte c = 9 \<or> byte c = 10 \<or> byte c = 12 \<or> byte c = 13 \<or> byte c = 32)"

definition class_azAZ :: "char \<Rightarrow> bool" where
  "class_azAZ c = ((97 \<le> byte c \<and> byte c \<le> 122) \<or> (65 \<le> byte c \<and> byte c \<le> 90))"

definition class_azAZ09 :: "char \<Rightarrow> bool" where
  "class_azAZ09 c = ((97 \<le> byte c \<and> byte c \<le> 122) \<or> (65 \<le> byte c \<and> byte c \<le> 90)
     \<or> (48 \<le> byte c \<and> byte c \<le> 57) \<or> c = CHR ''_'' \<or> c = CHR ''-'')"

text \<open>The second range of the source's class is \<open>A-z\<close> (bytes 65 to 122).\<close>

definition class_azAz :: "char \<Rightarrow> bool" where
  "class_azAz c = ((97 \<le> byte c \<and> byte c \<le> 122) \<or> (65 \<le> byte c \<and> byte c \<le> 122))"

definition lit :: "char \<Rightarrow> regex" where
  "lit a = Chr (\<lambda>c. c = a)"

text \<open>\<^verbatim>\<open>argRe = (\d+)|\[([^:]+)?(\:)?([^\]]+)?\]\<close>\<close>

definition argRe :: regex where
  "argRe =
     Alt (Cap 1 (Rep1 isDigit))
         (Cat (lit (CHR ''[''))
         (Cat (Opt (Cap 2 (Rep1 (\<lambda>c. c \<noteq> CHR '':''))))
         (Cat (Opt (Cap 3 (lit (CHR '':''))))
         (Cat (Opt (Cap 4 (Rep1 (\<lambda>c. c \<noteq> CHR '']''))))
              (lit (CHR '']''))))))"

text \<open>\<^verbatim>\<open>flagRe = ^([a-zA-Z][a-zA-Z0-9_-]+)(?:,\s*([a-zA-z]))?$\<close>\<close>

definition flagRe :: regex where
  "flagRe =
     Cat Bol
    (Cat (Cap 1 (Cat (Chr class_azAZ) (Rep1 class_azAZ09)))
    (Cat (Opt (Cat (lit (CHR '','')) (Cat (Rep0 reSpace) (Cap 2 (Chr class_azAz)))))
         Eol))"

section \<open>strconv.Atoi\<close>

text \<open>
  \<open>Atoi\<close> accepts an optional sign and one or more decimal digits whose value fits the
  type \<open>int\<close>, here 64 bits wide; everything else is an error (\<open>None\<close>).
\<close>

definition digitsValue :: "string \<Rightarrow> int" where
  "digitsValue ds = foldl (\<lambda>n c. n * 10 + int (byte c - 48)) 0 ds"

definition Atoi :: "string \<Rightarrow> int option" where
  "Atoi s =
     (let signed = (s \<noteq> [] \<and> (hd s = CHR ''-'' \<or> hd s = CHR ''+''));
          ds = (if signed then tl s else s);
          v = (if s \<noteq> [] \<and> hd s = CHR ''-'' then - digitsValue ds else digitsValue ds)
      in if ds = [] \<or> \<not> list_all isDigit ds then None
         else if - (2 ^ 63) \<le> v \<and> v < 2 ^ 63 then Some v
         else None)"

section \<open>ArgSpec and FlagSpec\<close>

record ArgSpec =
  Start :: int
  End :: int

record FlagSpec =
  Long :: string
  Short :: string

text \<open>
  \<open>parseArg\<close> writes into the \<open>ArgSpec\<close> it is given and returns a boolean; the model
  returns both.  The local \<open>err\<close> is the flag \<open>failed\<close>.
\<close>

definition parseArg :: "string \<Rightarrow> ArgSpec \<Rightarrow> ArgSpec \<times> bool" where
  "parseArg tval0 spec =
     (let tval = TrimSpace tval0 in
      if tval = [] then (spec, False)
      else
        let m = FindStringSubmatch argRe tval in
        if length m \<noteq> 5 then (spec, False)
        else
          (case (if m ! 1 \<noteq> [] then Atoi (m ! 1) else None) of
             Some iconv \<Rightarrow> (spec\<lparr>Start := iconv\<rparr>, True)
           | None \<Rightarrow>
               let s = m ! 2; r = m ! 3; e = m ! 4 in
               if s = [] \<and> r = [] \<and> e = [] then (spec, False)
               else
                 let (spec1, failed1) =
                       (if s = [] then (spec\<lparr>Start := 0\<rparr>, False)
                        else (case Atoi s of
                                Some iconv \<Rightarrow> (spec\<lparr>Start := iconv\<rparr>, False)
                              | None \<Rightarrow> (spec, True)))
                 in
                 if r = [] then (spec1, \<not> failed1)
                 else
                   let (spec2, failed2) =
                         (if e = [] then (spec1\<lparr>End := - 1\<rparr>, failed1)
                          else (case Atoi e of
                                  Some iconv \<Rightarrow> (spec1\<lparr>End := iconv\<rparr>, False)
                                | None \<Rightarrow> (spec1, True)))
                   in (spec2, \<not> failed2 \<and> Start spec2 \<ge> 0
                               \<and> (End spec2 = - 1 \<or> End spec2 > Start spec2))))"

text \<open>\<open>Tag.Arg\<close>: \<open>(&ret, true)\<close> is \<open>Some ret\<close>, \<open>(nil, false)\<close> is \<open>None\<close>.\<close>

definition Arg :: "Tag \<Rightarrow> ArgSpec option" where
  "Arg tag =
     (case decompose tag of (arg, def, flag) \<Rightarrow>
        if arg = [] then None
        else (case parseArg arg \<lparr>Start = 0, End = 0\<rparr> of
                (ret, ok) \<Rightarrow> if ok then Some ret else None))"

definition parseFlag :: "string \<Rightarrow> FlagSpec \<Rightarrow> FlagSpec \<times> bool" where
  "parseFlag tval0 spec =
     (let tval = TrimSpace tval0 in
      if tval = [] then (spec, False)
      else
        let m = FindStringSubmatch flagRe tval in
        if m = [] then (spec, False)
        else if length m \<noteq> 3 then (spec, False)
        else (spec\<lparr>Long := m ! 1, Short := m ! 2\<rparr>, True))"

definition Flag :: "Tag \<Rightarrow> FlagSpec option" where
  "Flag tag =
     (case decompose tag of (arg, def, flag) \<Rightarrow>
        if flag = [] then None
        else (case parseFlag flag \<lparr>Long = [], Short = []\<rparr> of
                (ret, ok) \<Rightarrow> if ok then Some ret else None))"

section \<open>The metadata compiler (src/meta/meta.go)\<close>

record CommandInput =
  FieldName :: string
  Tag :: Tag
  Doc :: string
  Type :: string

record Command =
  Name :: string
  Package :: string
  TypeName :: string
  Help :: string
  Description :: string
  Inputs :: "CommandInput list"
  typ' :: string

text \<open>
  The field \<open>Type\<close> of \<open>Command\<close> is called \<open>TypeName\<close> here, since \<open>CommandInput\<close> has a
  field \<open>Type\<close> too, and its unexported field \<open>typ\<close> is \<open>typ'\<close>.

  The syntax tree of package \<open>go/ast\<close>, as far as \<open>Compile\<close> and \<open>compileInputs\<close> look
  at it: a type specification with its name (an identifier, possibly nil) and its type
  expression; a struct type with its field list (possibly nil); a field with its names,
  the text of its doc comment (\<open>field.Doc.Text()\<close>, when there is one), the literal of
  its tag (when there is one) and its type expression; any other node with its children.
\<close>

datatype node =
    Ident string
  | TypeSpec "string option" node
  | StructNode struct_type
  | OtherNode "node list"
and struct_type =
    StructType "field list option"
and field =
    Field (Names: "string list") (FDoc: "string option") (FTag: "string option") (FType: node)

text \<open>
  The functions of other packages that the compiler calls and whose code is not part of
  the repository are parameters of the model: \<open>ast.Ident.IsExported\<close>,
  \<open>strconv.Unquote\<close>, \<open>reflect.StructTag.Lookup\<close> (tag, key), \<open>fmt.Sprintf("%s", expr)\<close>
  and \<open>strcase.ToKebab\<close>.
\<close>

record golib =
  IsExported :: "string \<Rightarrow> bool"
  Unquote :: "string \<Rightarrow> string option"
  Lookup :: "string \<Rightarrow> string \<Rightarrow> string option"
  Sprintf_s :: "node \<Rightarrow> string"
  ToKebab :: "string \<Rightarrow> string"

text \<open>The body of the loop of \<open>compileInputs\<close>: one field, appended to \<open>inputs\<close> or skipped.\<close>

fun compileField :: "golib \<Rightarrow> CommandInput list \<Rightarrow> field \<Rightarrow> CommandInput list" where
  "compileField L inputs (Field names fdoc ftag ftype) =
     (let n = length names in
      if n = 0 then inputs
      else if n > 1 then inputs
      else if \<not> IsExported L (names ! 0) then inputs
      else
        let name = names ! 0;
            doc = (case fdoc of None \<Rightarrow> [] | Some text \<Rightarrow> text);
            stag = (case ftag of None \<Rightarrow> []
                    | Some tv \<Rightarrow> (case Unquote L tv of Some utv \<Rightarrow> utv | None \<Rightarrow> []));
            tag = (case Lookup L stag [] of Some t \<Rightarrow> t | None \<Rightarrow> [])
        in inputs @ [\<lparr>FieldName = name, Tag = tag, Doc = doc, Type = Sprintf_s L ftype\<rparr>])"

text \<open>\<open>compileInputs\<close>; a nil \<open>st\<close> is \<open>None\<close>.\<close>

fun compileInputs :: "golib \<Rightarrow> struct_type option \<Rightarrow> CommandInput list" where
  "compileInputs L None = []"
| "compileInputs L (Some (StructType None)) = []"
| "compileInputs L (Some (StructType (Some flds))) = foldl (compileField L) [] flds"

text \<open>
  \<open>Command.Compile\<close>, the function handed to \<open>ast.Inspect\<close>: it returns the updated
  \<open>Command\<close> and the boolean "descend into this node".  A nil node is \<open>None\<close>.
\<close>

fun Compile :: "golib \<Rightarrow> Command \<Rightarrow> node option \<Rightarrow> Command \<times> bool" where
  "Compile L meta None = (meta, False)"
| "Compile L meta (Some (TypeSpec name ty)) =
     (if name = None \<or> name \<noteq> Some (typ' meta) then (meta, True)
      else (case ty of
              StructNode st \<Rightarrow>
                (meta\<lparr>Inputs := Inputs meta @ compileInputs L (Some st)\<rparr>, False)
            | _ \<Rightarrow> (meta, True)))"
| "Compile L meta (Some n) = (meta, True)"

text \<open>
  \<open>ast.Inspect(node, meta.Compile)\<close>: call \<open>Compile\<close> on the node; when it returns true,
  inspect the children in order and call \<open>Compile\<close> on nil at the end.  The children
  that are identifiers, comments or literals have no children of their own and
  \<open>Compile\<close> leaves the \<open>Command\<close> as it is on them; the walk goes into the type
  expressions.
\<close>

fun Inspect :: "golib \<Rightarrow> node \<Rightarrow> Command \<Rightarrow> Command"
and InspectList :: "golib \<Rightarrow> node list \<Rightarrow> Command \<Rightarrow> Command"
and InspectFields :: "golib \<Rightarrow> field list \<Rightarrow> Command \<Rightarrow> Command" where
  "Inspect L (Ident x) meta =
     (case Compile L meta (Some (Ident x)) of
        (m, descend) \<Rightarrow> if descend then fst (Compile L m None) else m)"
| "Inspect L (TypeSpec name ty) meta =
     (case Compile L meta (Some (TypeSpec name ty)) of
        (m, descend) \<Rightarrow> if descend then fst (Compile L (Inspect L ty m) None) else m)"
| "Inspect L (StructNode (StructType None)) meta =
     (case Compile L meta (Some (StructNode (StructType None))) of
        (m, descend) \<Rightarrow> if descend then fst (Compile L m None) else m)"
| "Inspect L (StructNode (StructType (Some flds))) meta =
     (case Compile L meta (Some (StructNode (StructType (Some flds)))) of
        (m, descend) \<Rightarrow> if descend then fst (Compile L (InspectFields L flds m) None) else m)"
| "Inspect L (OtherNode ns) meta =
     (case Compile L meta (Some (OtherNode ns)) of
        (m, descend) \<Rightarrow> if descend then fst (Compile L (InspectList L ns m) None) else m)"
| "InspectList L [] meta = meta"
| "InspectList L (n # ns) meta = InspectList L ns (Inspect L n meta)"
| "InspectFields L [] meta = meta"
| "InspectFields L (Field names fdoc ftag ftype # fs) meta =
     InspectFields L fs (Inspect L ftype meta)"

text \<open>\<open>commandName\<close>.\<close>

definition commandName :: "golib \<Rightarrow> string \<Rightarrow> string" where
  "commandName L pkg = (let name = pkg in ToKebab L name)"

text \<open>
  \<open>strings.Replace(s, old, new, 1)\<close>: the first occurrence of \<open>old\<close> is replaced; an empty
  \<open>old\<close> occurs at the very beginning.
\<close>

fun Replace1 :: "string \<Rightarrow> string \<Rightarrow> string \<Rightarrow> string" where
  "Replace1 [] old new = (if old = [] then new else [])"
| "Replace1 (x # xs) old new =
     (if HasPrefix (x # xs) old then new @ drop (length old) (x # xs)
      else x # Replace1 xs old new)"

text \<open>
  \<open>whitespaceRunsRe.ReplaceAllLiteralString(doc, " ")\<close> for the expression \<^verbatim>\<open>\s+\<close>: every
  maximal run of characters of the class \<^verbatim>\<open>\s\<close> becomes one space.
\<close>

function ReplaceAllSpaceRuns :: "string \<Rightarrow> string" where
  "ReplaceAllSpaceRuns [] = []"
| "ReplaceAllSpaceRuns (x # xs) =
     (if reSpace x then CHR '' '' # ReplaceAllSpaceRuns (dropWhile reSpace xs)
      else x # ReplaceAllSpaceRuns xs)"
  by pat_completeness auto
termination
  by (relation "measure length") (auto simp: length_dropWhile_le less_Suc_eq_le)

text \<open>\<open>sanitizeHelp\<close> of src/meta/meta.go.\<close>

definition sanitizeHelp :: "string \<Rightarrow> string \<Rightarrow> string \<Rightarrow> string" where
  "sanitizeHelp doc0 pkg cmd =
     (let doc = fst (CutPrefix doc0 ''Package '') in
      if doc = [] then []
      else
        let doc' = (if HasPrefix doc pkg then Replace1 doc pkg cmd else doc)
        in TrimSpace (ReplaceAllSpaceRuns doc'))"

text \<open>\<open>sanitizeHelp\<close> of src/cliche.go.\<close>

definition cliche_sanitizeHelp :: "string \<Rightarrow> string \<Rightarrow> string \<Rightarrow> string" where
  "cliche_sanitizeHelp doc0 pkg cmd =
     (let doc = fst (CutPrefix doc0 ''Package '') in
      if doc = [] then []
      else
        let doc' = (if HasPrefix doc pkg then Replace1 doc pkg cmd else doc)
        in TrimSpace doc')"

text \<open>
  What \<open>FromFile\<close> gets from packages \<open>io\<close>, \<open>go/parser\<close> and \<open>go/doc\<close>: the package with
  its name, its doc comment and its types, each type with its name, its doc comment and
  the declaration node it comes from.  \<open>None\<close> stands for a failure of one of the three
  (the source cannot be read, parsed or documented).
\<close>

record doc_Type =
  type_Name :: string
  type_Doc :: string
  type_Decl :: node

record doc_Package =
  pkg_Name :: string
  pkg_Doc :: string
  pkg_Types :: "doc_Type list"

text \<open>\<open>FromFile\<close>; the nil result is \<open>None\<close>.\<close>

definition FromFile :: "golib \<Rightarrow> doc_Package option \<Rightarrow> string \<Rightarrow> Command option" where
  "FromFile L parsed typeName =
     (case parsed of
        None \<Rightarrow> None
      | Some pkg \<Rightarrow>
          (case find (\<lambda>t. type_Name t = typeName) (pkg_Types pkg) of
             None \<Rightarrow> None
           | Some ourType \<Rightarrow>
               let cmdActual = commandName L (pkg_Name pkg);
                   meta = \<lparr>Name = cmdActual,
                           Package = pkg_Name pkg,
                           TypeName = type_Name ourType,
                           Help = sanitizeHelp (pkg_Doc pkg) (pkg_Name pkg) cmdActual,
                           Description = TrimSpace (type_Doc ourType),
                           Inputs = [],
                           typ' = []\<rparr>
               in Some (Inspect L (type_Decl ourType) meta)))"

section \<open>Notions of the specification\<close>

text \<open>
  The value of a directive as the specification words it: among the components, each
  trimmed, those carrying the prefix; the value is what follows the prefix in the last
  of them, trimmed, and the empty string when there is none.
\<close>

definition directive :: "string \<Rightarrow> string list \<Rightarrow> string" where
  "directive pfx comps =
     (let carrying = filter (\<lambda>c. HasPrefix c pfx) (map TrimSpace comps)
      in if carrying = [] then [] else TrimSpace (drop (length pfx) (last carrying)))"

text \<open>The decimal numeral of a natural number.\<close>

fun decimal :: "nat \<Rightarrow> string" where
  "decimal n =
     (if n < 10 then [char_of (48 + n)]
      else decimal (n div 10) @ [char_of (48 + n mod 10)])"

declare decimal.simps [simp del]

text \<open>A field is eligible when it has exactly one name and that name is exported.\<close>

definition eligible :: "golib \<Rightarrow> field \<Rightarrow> bool" where
  "eligible L f = (length (Names f) = 1 \<and> IsExported L (hd (Names f)))"

text \<open>
  A text is single-spaced when each of its characters of class \<^verbatim>\<open>\s\<close> is a space that
  no other character of the class follows.
\<close>

fun single_spaced :: "string \<Rightarrow> bool" where
  "single_spaced [] = True"
| "single_spaced [x] = (reSpace x = (x = CHR '' ''))"
| "single_spaced (x # y # s) =
     ((reSpace x = (x = CHR '' '' \<and> \<not> reSpace y)) \<and> single_spaced (y # s))"

text \<open>A text without the characters of class \<^verbatim>\<open>\s\<close> at its end.\<close>

fun strip_end :: "string \<Rightarrow> string" where
  "strip_end [] = []"
| "strip_end (a # s) =
     (case strip_end s of
        [] \<Rightarrow> if reSpace a then [] else [a]
      | b # r \<Rightarrow> a # b # r)"

text \<open>
  The end-to-end example: package \<open>simple\<close> with the type \<open>Tester\<close>, a struct with the
  one field \<open>String string\<close>.  The declaration node is the general declaration holding
  its doc comment and the type specification.
\<close>

definition simple_Tester :: node where
  "simple_Tester =
     OtherNode [OtherNode [],
       TypeSpec (Some ''Tester'')
         (StructNode (StructType (Some
            [Field [''String''] (Some ''String command input.'') None (Ident ''string'')])))]"

definition simple_package :: doc_Package where
  "simple_package =
     \<lparr>pkg_Name = ''simple'',
      pkg_Doc = ''Package simple is a simple test.'',
      pkg_Types = [\<lparr>type_Name = ''Tester'', type_Doc = ''Tester is a test.'',
                    type_Decl = simple_Tester\<rparr>]\<rparr>"

section \<open>Properties of decompose\<close>

lemma HasPrefix_Cons:
  "HasPrefix s (x # p) = (case s of [] \<Rightarrow> False | y # t \<Rightarrow> y = x \<and> HasPrefix t p)"
  by (cases s) (auto simp: HasPrefix_def)

lemma prefixes_exclusive:
  "HasPrefix c ''arg:'' \<Longrightarrow> \<not> HasPrefix c ''flag:''"
  "HasPrefix c ''arg:'' \<Longrightarrow> \<not> HasPrefix c ''default:''"
  "HasPrefix c ''flag:'' \<Longrightarrow> \<not> HasPrefix c ''default:''"
  by (cases c; simp add: HasPrefix_Cons)+

lemma directive_snoc:
  "directive p (cs @ [c]) =
     (if HasPrefix (TrimSpace c) p then TrimSpace (drop (length p) (TrimSpace c))
      else directive p cs)"
  by (simp add: directive_def Let_def)

lemma decompose_component_directive:
  "decompose_component
     (directive ''arg:'' cs, directive ''default:'' cs, directive ''flag:'' cs) c =
   (directive ''arg:'' (cs @ [c]), directive ''default:'' (cs @ [c]),
    directive ''flag:'' (cs @ [c]))"
  using prefixes_exclusive [of "TrimSpace c"]
  by (auto simp: decompose_component_def directive_snoc CutPrefix_def Let_def)

lemma foldl_decompose_component:
  "foldl decompose_component ([], [], []) cs =
     (directive ''arg:'' cs, directive ''default:'' cs, directive ''flag:'' cs)"
proof (induction cs rule: rev_induct)
  case Nil
  show ?case by (simp add: directive_def)
next
  case (snoc c cs)
  have "foldl decompose_component ([], [], []) (cs @ [c]) =
        decompose_component (foldl decompose_component ([], [], []) cs) c"
    by simp
  also have "\<dots> = decompose_component
     (directive ''arg:'' cs, directive ''default:'' cs, directive ''flag:'' cs) c"
    by (simp only: snoc.IH)
  finally show ?case
    by (simp only: decompose_component_directive)
qed

lemma TrimSpace_Nil: "TrimSpace [] = []"
  by (simp add: TrimSpace_def TrimRight_def TrimLeft.simps TrimRightRev.simps)

lemma decompose_directive:
  "decompose tag =
     (directive ''arg:'' (Split tag (CHR '';'')),
      directive ''default:'' (Split tag (CHR '';'')),
      directive ''flag:'' (Split tag (CHR '';'')))"
proof (cases "tag = []")
  case True
  then show ?thesis
    by (simp add: decompose_def directive_def TrimSpace_Nil HasPrefix_Cons)
next
  case False
  then show ?thesis
    by (simp add: decompose_def foldl_decompose_component)
qed

text \<open>
  C6.  \<open>decompose\<close> is a total function; its three results are the values of the three
  directives: for each kind, the trimmed value of the last component carrying the
  prefix, the empty string when no component carries it.  Hence two tags whose
  components of each kind are the same, in the same order, decompose alike, whatever
  the order of components of different kinds and whatever other components they hold.
  \<open>decompose("arg:FOO;arg:QUX")\<close> has \<open>arg = "QUX"\<close>, and
  \<open>decompose("arg:FOO;default:BAR;flag:BAZ")\<close> is \<open>decompose("default:BAR;flag:BAZ;arg:FOO")\<close>.
\<close>

theorem decompose_last_of_each_kind:
  "decompose tag =
     (directive ''arg:'' (Split tag (CHR '';'')),
      directive ''default:'' (Split tag (CHR '';'')),
      directive ''flag:'' (Split tag (CHR '';'')))
   \<and> ((\<forall>p \<in> {''arg:'', ''default:'', ''flag:''}.
          filter (\<lambda>c. HasPrefix c p) (map TrimSpace (Split t1 (CHR '';''))) =
          filter (\<lambda>c. HasPrefix c p) (map TrimSpace (Split t2 (CHR '';''))))
        \<longrightarrow> decompose t1 = decompose t2)
   \<and> fst (decompose ''arg:FOO;arg:QUX'') = ''QUX''
   \<and> decompose ''arg:FOO;default:BAR;flag:BAZ'' = decompose ''default:BAR;flag:BAZ;arg:FOO''"
proof (intro conjI impI)
  show "decompose tag =
     (directive ''arg:'' (Split tag (CHR '';'')),
      directive ''default:'' (Split tag (CHR '';'')),
      directive ''flag:'' (Split tag (CHR '';'')))"
    by (rule decompose_directive)
next
  assume "\<forall>p \<in> {''arg:'', ''default:'', ''flag:''}.
          filter (\<lambda>c. HasPrefix c p) (map TrimSpace (Split t1 (CHR '';''))) =
          filter (\<lambda>c. HasPrefix c p) (map TrimSpace (Split t2 (CHR '';'')))"
  then have "directive ''arg:'' (Split t1 (CHR '';'')) = directive ''arg:'' (Split t2 (CHR '';''))"
    and "directive ''default:'' (Split t1 (CHR '';'')) = directive ''default:'' (Split t2 (CHR '';''))"
    and "directive ''flag:'' (Split t1 (CHR '';'')) = directive ''flag:'' (Split t2 (CHR '';''))"
    unfolding directive_def by simp_all
  then show "decompose t1 = decompose t2"
    by (simp only: decompose_directive)
next
  have "decompose ''arg:FOO;arg:QUX'' = (''QUX'', [], [])"
    by code_simp
  then show "fst (decompose ''arg:FOO;arg:QUX'') = ''QUX''"
    by simp
next
  have "decompose ''arg:FOO;default:BAR;flag:BAZ'' = (''FOO'', ''BAR'', ''BAZ'')"
    by code_simp
  moreover have "decompose ''default:BAR;flag:BAZ;arg:FOO'' = (''FOO'', ''BAR'', ''BAZ'')"
    by code_simp
  ultimately show "decompose ''arg:FOO;default:BAR;flag:BAZ'' = decompose ''default:BAR;flag:BAZ;arg:FOO''"
    by simp
qed

theorem decompose_last_of_each_kind_witness:
  "map TrimSpace (Split ''flag:x; arg:1;arg:2'' (CHR '';'')) = [''flag:x'', ''arg:1'', ''arg:2'']
   \<and> map TrimSpace (Split ''arg:1;nonsense:y;arg:2;flag:x'' (CHR '';''))
       = [''arg:1'', ''nonsense:y'', ''arg:2'', ''flag:x'']
   \<and> decompose ''flag:x; arg:1;arg:2'' = decompose ''arg:1;nonsense:y;arg:2;flag:x''
   \<and> decompose ''arg:1;nonsense:y;arg:2;flag:x'' = (''2'', [], ''x'')"
proof -
  have s1: "map TrimSpace (Split ''flag:x; arg:1;arg:2'' (CHR '';'')) = [''flag:x'', ''arg:1'', ''arg:2'']"
    by code_simp
  have s2: "map TrimSpace (Split ''arg:1;nonsense:y;arg:2;flag:x'' (CHR '';''))
            = [''arg:1'', ''nonsense:y'', ''arg:2'', ''flag:x'']"
    by code_simp
  have h: "\<forall>p \<in> {''arg:'', ''default:'', ''flag:''}.
      filter (\<lambda>c. HasPrefix c p) (map TrimSpace (Split ''flag:x; arg:1;arg:2'' (CHR '';''))) =
      filter (\<lambda>c. HasPrefix c p) (map TrimSpace (Split ''arg:1;nonsense:y;arg:2;flag:x'' (CHR '';'')))"
    unfolding s1 s2 by (simp add: HasPrefix_def)
  have v: "decompose ''arg:1;nonsense:y;arg:2;flag:x'' = (''2'', [], ''x'')"
    by code_simp
  from decompose_last_of_each_kind
         [of "[]" "''flag:x; arg:1;arg:2''" "''arg:1;nonsense:y;arg:2;flag:x''"] h
  have "decompose ''flag:x; arg:1;arg:2'' = decompose ''arg:1;nonsense:y;arg:2;flag:x''"
    by blast
  with s1 s2 v show ?thesis by blast
qed

section \<open>The tag parser on particular tags\<close>

text \<open>
  C3.  The value \<open>foo42bar\<close> is neither a numeral nor a bracketed form, yet \<open>Arg\<close>
  accepts it: the expression \<open>argRe\<close> is not anchored and matches the digits inside.
\<close>

theorem Arg_accepts_embedded_number:
  "Arg ''arg:foo42bar'' = Some \<lparr>Start = 42, End = 0\<rparr>"
  by code_simp

text \<open>
  C4.  The bracketed index \<open>[-1]\<close> is accepted with \<open>Start = -1\<close>: the sign check is made
  for ranges only.
\<close>

theorem Arg_accepts_negative_index:
  "Arg ''arg:[-1]'' = Some \<lparr>Start = - 1, End = 0\<rparr>"
  by code_simp

text \<open>
  C5.  The short form \<open>_\<close> is not a letter, yet \<open>Flag\<close> accepts it: the class of the
  short form is \<open>[a-zA-z]\<close>, whose second range holds the six characters between \<open>Z\<close>
  and \<open>a\<close>.
\<close>

theorem Flag_accepts_non_letter_short:
  "Flag ''flag:foo,_'' = Some \<lparr>Long = ''foo'', Short = ''_''\<rparr>"
  by code_simp

section \<open>The metadata compiler\<close>

lemma compileField_eligible:
  "compileField L inputs f =
     (if eligible L f
      then inputs @ [\<lparr>FieldName = hd (Names f),
                       Tag = (case Lookup L (case FTag f of None \<Rightarrow> []
                                             | Some tv \<Rightarrow> (case Unquote L tv of Some utv \<Rightarrow> utv | None \<Rightarrow> [])) []
                              of Some t \<Rightarrow> t | None \<Rightarrow> []),
                       Doc = (case FDoc f of None \<Rightarrow> [] | Some text \<Rightarrow> text),
                       Type = Sprintf_s L (FType f)\<rparr>]
      else inputs)"
proof (cases f)
  case (Field names fdoc ftag ftype)
  show ?thesis
  proof (cases names)
    case Nil
    with Field show ?thesis by (simp add: eligible_def)
  next
    case (Cons n ns)
    with Field show ?thesis by (cases ns) (simp_all add: eligible_def Let_def)
  qed
qed

lemma foldl_compileField:
  "map FieldName (foldl (compileField L) inputs flds) =
     map FieldName inputs @ map (\<lambda>f. hd (Names f)) (filter (eligible L) flds)
   \<and> map Doc (foldl (compileField L) inputs flds) =
     map Doc inputs @ map (\<lambda>f. case FDoc f of None \<Rightarrow> [] | Some text \<Rightarrow> text) (filter (eligible L) flds)
   \<and> map Type (foldl (compileField L) inputs flds) =
     map Type inputs @ map (\<lambda>f. Sprintf_s L (FType f)) (filter (eligible L) flds)"
proof (induction flds arbitrary: inputs)
  case Nil
  show ?case by simp
next
  case (Cons f flds)
  define acc where "acc = compileField L inputs f"
  have step: "foldl (compileField L) inputs (f # flds) = foldl (compileField L) acc flds"
    by (simp add: acc_def)
  have m1: "map FieldName acc = map FieldName inputs @ (if eligible L f then [hd (Names f)] else [])"
    unfolding acc_def by (subst compileField_eligible) simp
  have m2: "map Doc acc = map Doc inputs
              @ (if eligible L f then [case FDoc f of None \<Rightarrow> [] | Some text \<Rightarrow> text] else [])"
    unfolding acc_def by (subst compileField_eligible) simp
  have m3: "map Type acc = map Type inputs @ (if eligible L f then [Sprintf_s L (FType f)] else [])"
    unfolding acc_def by (subst compileField_eligible) simp
  show ?case
    unfolding step using Cons.IH [of acc] by (simp add: m1 m2 m3)
qed

text \<open>
  C9.  \<open>compileInputs\<close> is a total function (it has no failure); for a struct type with
  the fields \<open>flds\<close> it yields one \<open>CommandInput\<close> for each eligible field (exactly one
  name, and that name exported), in the order of declaration, with the field's name,
  doc text and printed type, and nothing for any other field.
\<close>

theorem compileInputs_eligible_fields:
  "map FieldName (compileInputs L (Some (StructType (Some flds)))) =
     map (\<lambda>f. hd (Names f)) (filter (eligible L) flds)
   \<and> map Doc (compileInputs L (Some (StructType (Some flds)))) =
     map (\<lambda>f. case FDoc f of None \<Rightarrow> [] | Some text \<Rightarrow> text) (filter (eligible L) flds)
   \<and> map Type (compileInputs L (Some (StructType (Some flds)))) =
     map (\<lambda>f. Sprintf_s L (FType f)) (filter (eligible L) flds)
   \<and> length (compileInputs L (Some (StructType (Some flds)))) = length (filter (eligible L) flds)"
proof -
  have len: "length (compileInputs L (Some (StructType (Some flds)))) =
             length (map FieldName (compileInputs L (Some (StructType (Some flds)))))"
    by simp
  show ?thesis
    unfolding len using foldl_compileField [of L "[]" flds] by simp
qed

text \<open>
  C1.  On the end-to-end example \<open>FromFile\<close> returns the command with the name, package,
  type, help and description of the claim, and with no input at all: \<open>FromFile\<close> leaves
  the field \<open>typ\<close> of the \<open>Command\<close> empty, so \<open>Compile\<close> finds no type specification of
  that name and never calls \<open>compileInputs\<close>.
\<close>

theorem FromFile_simple_no_inputs:
  "ToKebab L ''simple'' = ''simple'' \<Longrightarrow>
   FromFile L (Some simple_package) ''Tester'' =
     Some \<lparr>Name = ''simple'', Package = ''simple'', TypeName = ''Tester'',
           Help = ''simple is a simple test.'', Description = ''Tester is a test.'',
           Inputs = [], typ' = []\<rparr>"
proof -
  assume k: "ToKebab L ''simple'' = ''simple''"
  have hlp: "sanitizeHelp ''Package simple is a simple test.'' ''simple'' ''simple''
              = ''simple is a simple test.''"
    by code_simp
  have descr: "TrimSpace ''Tester is a test.'' = ''Tester is a test.''"
    by code_simp
  show ?thesis
    by (simp add: FromFile_def simple_package_def simple_Tester_def commandName_def k hlp descr Let_def)
qed

theorem FromFile_simple_no_inputs_witness:
  "FromFile \<lparr>IsExported = (\<lambda>name. True), Unquote = (\<lambda>s. Some s), Lookup = (\<lambda>tag key. None),
             Sprintf_s = (\<lambda>n. []), ToKebab = (\<lambda>s. s)\<rparr>
     (Some simple_package) ''Tester'' =
     Some \<lparr>Name = ''simple'', Package = ''simple'', TypeName = ''Tester'',
           Help = ''simple is a simple test.'', Description = ''Tester is a test.'',
           Inputs = [], typ' = []\<rparr>"
  by (rule FromFile_simple_no_inputs) simp

section \<open>The argument parser on numerals and ranges\<close>

lemma leadingSpace_ascii:
  "byte a < 128 \<Longrightarrow> \<not> asciiSpace (byte a) \<Longrightarrow> leadingSpace (a # s) = 0"
proof (cases s)
  case Nil
  then show "byte a < 128 \<Longrightarrow> \<not> asciiSpace (byte a) \<Longrightarrow> leadingSpace (a # s) = 0" by simp
next
  case (Cons b t)
  then show "byte a < 128 \<Longrightarrow> \<not> asciiSpace (byte a) \<Longrightarrow> leadingSpace (a # s) = 0"
    by (cases t) (auto simp: space2_def space3_def)
qed

lemma trailingSpace_ascii:
  "byte a < 128 \<Longrightarrow> \<not> asciiSpace (byte a) \<Longrightarrow> trailingSpace (a # s) = 0"
proof (cases s)
  case Nil
  then show "byte a < 128 \<Longrightarrow> \<not> asciiSpace (byte a) \<Longrightarrow> trailingSpace (a # s) = 0" by simp
next
  case (Cons b t)
  then show "byte a < 128 \<Longrightarrow> \<not> asciiSpace (byte a) \<Longrightarrow> trailingSpace (a # s) = 0"
    by (cases t) (auto simp: space2_def space3_def)
qed

lemma TrimSpace_id:
  assumes "leadingSpace s = 0" and "trailingSpace (rev s) = 0"
  shows "TrimSpace s = s"
proof -
  have "TrimLeft s = s"
    using assms(1) by (subst TrimLeft.simps) simp
  moreover have "TrimRightRev (rev s) = rev s"
    using assms(2) by (subst TrimRightRev.simps) simp
  ultimately show ?thesis
    by (simp add: TrimSpace_def TrimRight_def)
qed

text \<open>A text that begins and ends with ASCII characters other than white space is trimmed.\<close>

lemma TrimSpace_ascii_ends:
  assumes "s \<noteq> []"
    and "byte (hd s) < 128" and "\<not> asciiSpace (byte (hd s))"
    and "byte (last s) < 128" and "\<not> asciiSpace (byte (last s))"
  shows "TrimSpace s = s"
proof (rule TrimSpace_id)
  from assms(1) obtain a t where s: "s = a # t" by (cases s) auto
  with assms(2,3) show "leadingSpace s = 0"
    by (simp add: leadingSpace_ascii)
  from assms(1) have "rev s = rev (butlast s @ [last s])"
    by simp
  then have r: "rev s = last s # rev (butlast s)"
    by simp
  show "trailingSpace (rev s) = 0"
    unfolding r using assms(4,5) by (rule trailingSpace_ascii)
qed

lemma isDigit_ascii: "isDigit c \<Longrightarrow> byte c < 128 \<and> \<not> asciiSpace (byte c)"
  by (auto simp: isDigit_def asciiSpace_def)

lemma TrimSpace_digits:
  assumes "ds \<noteq> []" and "list_all isDigit ds"
  shows "TrimSpace ds = ds"
proof (rule TrimSpace_ascii_ends)
  show "ds \<noteq> []" by fact
  from assms have "isDigit (hd ds)" and "isDigit (last ds)"
    by (simp_all add: list_all_iff)
  then show "byte (hd ds) < 128" "\<not> asciiSpace (byte (hd ds))"
       "byte (last ds) < 128" "\<not> asciiSpace (byte (last ds))"
    by (simp_all add: isDigit_ascii)
qed

subsection \<open>The greedy repetition\<close>

lemma rep_stop: "(case ys of [] \<Rightarrow> True | y # t \<Rightarrow> \<not> P y) \<Longrightarrow> rep P ys k = k ys"
  by (cases ys) auto

lemma rep_greedy:
  "list_all P xs \<Longrightarrow> (case ys of [] \<Rightarrow> True | y # t \<Rightarrow> \<not> P y) \<Longrightarrow> k ys = Some v
   \<Longrightarrow> rep P (xs @ ys) k = Some v"
  by (induction xs) (auto simp: rep_stop)

lemma rep_all: "list_all P xs \<Longrightarrow> k [] = Some v \<Longrightarrow> rep P xs k = Some v"
  using rep_greedy [of P xs "[]" k v] by simp

lemma NumSubexp_argRe: "NumSubexp argRe = 4"
  by (simp add: argRe_def lit_def)

lemma upt_5: "[0 ..< 5] = [0, 1, 2, 3, Suc 3]"
  by (simp add: upt_rec)

lemma FindStringSubmatch_digits:
  assumes "ds \<noteq> []" and "list_all isDigit ds"
  shows "FindStringSubmatch argRe ds = [ds, ds, [], [], []]"
proof -
  from assms obtain x xs where ds: "ds = x # xs" and x: "isDigit x" and xs: "list_all isDigit xs"
    by (cases ds) auto
  let ?c = "(Map.empty(1 \<mapsto> ds))(0 \<mapsto> ds) :: caps"
  have "rep isDigit xs
          (\<lambda>r. Some ((Map.empty(1 \<mapsto> take (length ds - length r) ds))
                        (0 \<mapsto> take (length ds - length r) ds))) = Some ?c"
    by (rule rep_all [OF xs]) simp
  then have "match_here argRe (length ds) ds = Some ?c"
    by (simp add: match_here_def argRe_def ds x)
  then have "FindStringSubmatch argRe ds = submatches argRe ?c"
    by (simp add: FindStringSubmatch_def ds)
  then show ?thesis
    by (simp add: submatches_def NumSubexp_argRe upt_5)
qed

subsection \<open>Atoi on digit strings and decimal numerals\<close>

lemma digitsValue_snoc: "digitsValue (ds @ [c]) = digitsValue ds * 10 + int (byte c - 48)"
  by (simp add: digitsValue_def)

lemma digitsValue_nonneg: "0 \<le> digitsValue ds"
  by (induction ds rule: rev_induct) (simp_all add: digitsValue_snoc, simp add: digitsValue_def)

lemma Atoi_digits:
  assumes "ds \<noteq> []" and "list_all isDigit ds"
  shows "Atoi ds = (if digitsValue ds < 2 ^ 63 then Some (digitsValue ds) else None)"
proof -
  from assms have "isDigit (hd ds)" by (cases ds) auto
  then have "hd ds \<noteq> CHR ''-''" and "hd ds \<noteq> CHR ''+''"
    by (auto simp: isDigit_def byte_def)
  moreover have "- (2 ^ 63) \<le> digitsValue ds"
    using digitsValue_nonneg [of ds] by simp
  ultimately show ?thesis
    using assms by (simp add: Atoi_def Let_def)
qed

lemma byte_digit: "(k::nat) < 10 \<Longrightarrow> byte (char_of (48 + k)) = 48 + k"
  by (simp add: byte_def)

lemma decimal_nonempty: "decimal n \<noteq> []"
  by (subst decimal.simps) simp

lemma isDigit_char_of: "(k::nat) < 10 \<Longrightarrow> isDigit (char_of (48 + k))"
  by (simp add: isDigit_def byte_digit)

lemma decimal_digits: "list_all isDigit (decimal n)"
proof (induction n rule: decimal.induct)
  case (1 n)
  show ?case
  proof (cases "n < 10")
    case True
    then show ?thesis
      by (subst decimal.simps) (simp add: isDigit_char_of)
  next
    case False
    moreover have "n mod 10 < 10" by simp
    ultimately show ?thesis
      using "1.IH" by (subst decimal.simps) (simp add: isDigit_char_of)
  qed
qed

lemma digitsValue_decimal: "digitsValue (decimal n) = int n"
proof (induction n rule: decimal.induct)
  case (1 n)
  show ?case
  proof (cases "n < 10")
    case True
    then show ?thesis
      by (subst decimal.simps) (simp add: digitsValue_def byte_digit)
  next
    case False
    have m: "n mod 10 < 10" by simp
    have "int n = int (n div 10 * 10 + n mod 10)" by simp
    also have "\<dots> = int (n div 10) * 10 + int (n mod 10)" by (simp only: of_nat_add of_nat_mult of_nat_numeral)
    finally have split: "int (n div 10) * 10 + int (n mod 10) = int n" by simp
    from False have "digitsValue (decimal n) = digitsValue (decimal (n div 10)) * 10 + int (n mod 10)"
      by (subst decimal.simps) (simp add: digitsValue_snoc byte_digit [OF m])
    with False "1.IH" split show ?thesis by simp
  qed
qed

lemma parseArg_digits:
  assumes "ds \<noteq> []" and "list_all isDigit ds" and "digitsValue ds < 2 ^ 63"
  shows "parseArg ds spec = (spec\<lparr>Start := digitsValue ds\<rparr>, True)"
  using assms
  by (simp add: parseArg_def TrimSpace_digits FindStringSubmatch_digits Atoi_digits)

lemma Split_no_separator: "sep \<notin> set s \<Longrightarrow> Split s sep = [s]"
  by (induction s) auto

lemma isDigit_not_semicolon: "isDigit c \<Longrightarrow> c \<noteq> CHR '';''"
  by (auto simp: isDigit_def byte_def)

lemma decompose_arg_digits:
  assumes "ds \<noteq> []" and "list_all isDigit ds"
  shows "decompose (''arg:'' @ ds) = (ds, [], [])"
proof -
  define tag where "tag = ''arg:'' @ ds"
  have nonempty: "tag \<noteq> []"
    by (simp add: tag_def)
  have "CHR '';'' \<notin> set ds"
    using assms(2) isDigit_not_semicolon by (auto simp: list_all_iff)
  then have "CHR '';'' \<notin> set tag"
    by (simp add: tag_def)
  then have split: "Split tag (CHR '';'') = [tag]"
    by (rule Split_no_separator)
  have "isDigit (last ds)"
    using assms by (simp add: list_all_iff)
  then have "byte (last tag) < 128" and "\<not> asciiSpace (byte (last tag))"
    using assms(1) by (simp_all add: isDigit_ascii tag_def)
  moreover have "byte (hd tag) < 128" and "\<not> asciiSpace (byte (hd tag))"
    by (simp_all add: tag_def byte_def asciiSpace_def)
  ultimately have trim: "TrimSpace tag = tag"
    using nonempty by (intro TrimSpace_ascii_ends)
  have cut: "CutPrefix tag ''arg:'' = (ds, True)"
    by (simp add: CutPrefix_def HasPrefix_def tag_def)
  have "decompose tag = (ds, [], [])"
    unfolding decompose_def split
    using nonempty by (simp add: decompose_component_def trim cut TrimSpace_digits [OF assms])
  then show ?thesis
    by (simp only: tag_def)
qed

text \<open>
  C2, as the code has it.  For every natural number \<open>N\<close> below \<open>2^63\<close> (the numeral fits
  the type \<open>int\<close>) and every tag whose \<open>arg\<close> value is the decimal numeral of \<open>N\<close>, in
  particular the tag \<open>arg:N\<close>, \<open>Arg\<close> returns ok with \<open>Start = N\<close> and with \<open>End = 0\<close>:
  the field \<open>End\<close> keeps its zero value.
\<close>

theorem Arg_bare_numeral:
  assumes "N < 2 ^ 63"
  shows "(fst (decompose tag) = decimal N \<longrightarrow> Arg tag = Some \<lparr>Start = int N, End = 0\<rparr>)
       \<and> Arg (''arg:'' @ decimal N) = Some \<lparr>Start = int N, End = 0\<rparr>"
proof -
  from assms have "int N < 2 ^ 63"
    by (metis of_nat_less_iff of_nat_numeral of_nat_power)
  then have parse: "parseArg (decimal N) \<lparr>Start = 0, End = 0\<rparr> = (\<lparr>Start = int N, End = 0\<rparr>, True)"
    by (simp add: parseArg_digits decimal_nonempty decimal_digits digitsValue_decimal)
  have general: "Arg t = Some \<lparr>Start = int N, End = 0\<rparr>" if "fst (decompose t) = decimal N" for t
    using that parse by (cases "decompose t") (simp add: Arg_def decimal_nonempty)
  have "decompose (''arg:'' @ decimal N) = (decimal N, [], [])"
    using decimal_nonempty decimal_digits by (rule decompose_arg_digits)
  then have "fst (decompose (''arg:'' @ decimal N)) = decimal N"
    by (simp only: fst_conv)
  then have "Arg (''arg:'' @ decimal N) = Some \<lparr>Start = int N, End = 0\<rparr>"
    by (rule general)
  with general [of tag] show ?thesis by blast
qed

theorem Arg_bare_numeral_witness:
  "fst (decompose ''default:x;arg: 42 '') = decimal 42
   \<and> Arg ''default:x;arg: 42 '' = Some \<lparr>Start = 42, End = 0\<rparr>
   \<and> Arg (''arg:'' @ decimal 42) = Some \<lparr>Start = 42, End = 0\<rparr>"
proof -
  have d: "decimal 42 = ''42''" by code_simp
  have a: "fst (decompose ''default:x;arg: 42 '') = decimal 42"
    unfolding d by code_simp
  have n: "(42::nat) < 2 ^ 63" by simp
  from Arg_bare_numeral [OF n, of "''default:x;arg: 42 ''"] a show ?thesis by simp
qed

theorem Arg_bare_numeral_counterexample:
  "Arg ''arg:42'' = Some \<lparr>Start = 42, End = 0\<rparr>
   \<and> Arg ''arg:42'' \<noteq> Some \<lparr>Start = 42, End = 42\<rparr>"
proof -
  have "Arg ''arg:42'' = Some \<lparr>Start = 42, End = 0\<rparr>" by code_simp
  then show ?thesis by simp
qed

subsection \<open>The bracketed range\<close>

lemma rmatch_Opt_Some: "rmatch a n s c k = Some v \<Longrightarrow> rmatch (Opt a) n s c k = Some v"
  by simp

lemma rmatch_Opt_None: "rmatch a n s c k = None \<Longrightarrow> rmatch (Opt a) n s c k = k s c"
  by simp

lemma rmatch_Rep1_greedy:
  assumes "xs \<noteq> []" and "list_all P xs" and "case ys of [] \<Rightarrow> True | y # t \<Rightarrow> \<not> P y"
    and "k ys c = Some v"
  shows "rmatch (Rep1 P) n (xs @ ys) c k = Some v"
proof -
  from assms(1,2) obtain x t where xs: "xs = x # t" and x: "P x" and t: "list_all P t"
    by (cases xs) auto
  have "rep P (t @ ys) (\<lambda>r. k r c) = Some v"
    using t assms(3) by (rule rep_greedy) (rule assms(4))
  then show ?thesis
    by (simp add: xs x)
qed

lemma rmatch_Rep1_fail:
  "(case ys of [] \<Rightarrow> True | y # t \<Rightarrow> \<not> P y) \<Longrightarrow> rmatch (Rep1 P) n ys c k = None"
  by (cases ys) auto

lemma rmatch_lit: "rmatch (lit a) n (a # s) c k = k s c"
  by (simp add: lit_def)

lemma isDigit_not_colon: "isDigit c \<Longrightarrow> c \<noteq> CHR '':''"
  by (auto simp: isDigit_def byte_def)

lemma isDigit_not_bracket: "isDigit c \<Longrightarrow> c \<noteq> CHR '']''"
  by (auto simp: isDigit_def byte_def)

text \<open>The end of the range: the group 4 and the closing bracket.\<close>

lemma rmatch_range_end:
  assumes "de \<noteq> []" and "list_all isDigit de" and "k [] (c(4 \<mapsto> de)) = Some v"
  shows "rmatch (Cat (Opt (Cap 4 (Rep1 (\<lambda>c. c \<noteq> CHR '']'')))) (lit (CHR '']'')))
           n (de @ '']'') c k = Some v"
proof -
  have nb: "list_all (\<lambda>c. c \<noteq> CHR '']'') de"
    using assms(2) isDigit_not_bracket by (auto simp: list_all_iff)
  have "rmatch (Rep1 (\<lambda>c. c \<noteq> CHR '']'')) n (de @ '']'') c
          (\<lambda>r c'. rmatch (lit (CHR '']'')) n r
                     (c'(4 \<mapsto> take (length (de @ '']'') - length r) (de @ '']''))) k) = Some v"
    using assms(1) nb by (rule rmatch_Rep1_greedy) (simp_all add: rmatch_lit assms(3))
  then have "rmatch (Opt (Cap 4 (Rep1 (\<lambda>c. c \<noteq> CHR '']'')))) n (de @ '']'') c
          (\<lambda>r c'. rmatch (lit (CHR '']'')) n r c' k) = Some v"
    by (intro rmatch_Opt_Some) (simp only: rmatch.simps)
  then show ?thesis
    by (simp only: rmatch.simps)
qed

text \<open>The colon of the range, then its end.\<close>

lemma rmatch_range_colon:
  assumes "de \<noteq> []" and "list_all isDigit de" and "k [] (c(3 \<mapsto> '':'', 4 \<mapsto> de)) = Some v"
  shows "rmatch (Cat (Opt (Cap 3 (lit (CHR '':''))))
                (Cat (Opt (Cap 4 (Rep1 (\<lambda>c. c \<noteq> CHR '']'')))) (lit (CHR '']''))))
           n (CHR '':'' # de @ '']'') c k = Some v"
proof -
  let ?rest = "Cat (Opt (Cap 4 (Rep1 (\<lambda>c. c \<noteq> CHR '']'')))) (lit (CHR '']''))"
  have "rmatch ?rest n (de @ '']'') (c(3 \<mapsto> '':'')) k = Some v"
    using assms by (rule rmatch_range_end)
  moreover have tk: "take (length (CHR '':'' # de @ '']'') - length (de @ '']'')) (CHR '':'' # de @ '']'') = '':''"
    by simp
  ultimately have "rmatch (lit (CHR '':'')) n (CHR '':'' # de @ '']'') c
          (\<lambda>r c'. rmatch ?rest n r
                     (c'(3 \<mapsto> take (length (CHR '':'' # de @ '']'') - length r) (CHR '':'' # de @ '']''))) k)
        = Some v"
    by (simp only: rmatch_lit)
  then have "rmatch (Opt (Cap 3 (lit (CHR '':'')))) n (CHR '':'' # de @ '']'') c
          (\<lambda>r c'. rmatch ?rest n r c' k) = Some v"
    by (intro rmatch_Opt_Some) (simp only: rmatch.simps)
  then show ?thesis
    by (simp only: rmatch.simps)
qed

text \<open>The start of the range (possibly omitted), then the colon and the end.\<close>

lemma rmatch_range_start:
  assumes "list_all isDigit ds" and "de \<noteq> []" and "list_all isDigit de"
    and "k [] ((if ds = [] then c else c(2 \<mapsto> ds))(3 \<mapsto> '':'', 4 \<mapsto> de)) = Some v"
  shows "rmatch (Cat (Opt (Cap 2 (Rep1 (\<lambda>c. c \<noteq> CHR '':''))))
                (Cat (Opt (Cap 3 (lit (CHR '':''))))
                (Cat (Opt (Cap 4 (Rep1 (\<lambda>c. c \<noteq> CHR '']'')))) (lit (CHR '']'')))))
           n (ds @ CHR '':'' # de @ '']'') c k = Some v"
proof -
  let ?rest = "Cat (Opt (Cap 3 (lit (CHR '':''))))
                (Cat (Opt (Cap 4 (Rep1 (\<lambda>c. c \<noteq> CHR '']'')))) (lit (CHR '']'')))"
  let ?s = "ds @ CHR '':'' # de @ '']''"
  have opt: "rmatch (Opt (Cap 2 (Rep1 (\<lambda>c. c \<noteq> CHR '':'')))) n ?s c
               (\<lambda>r c'. rmatch ?rest n r c' k) = Some v"
  proof (cases "ds = []")
    case True
    have "rmatch (Rep1 (\<lambda>c. c \<noteq> CHR '':'')) n (CHR '':'' # de @ '']'') c
            (\<lambda>r c'. rmatch ?rest n r
               (c'(2 \<mapsto> take (length (CHR '':'' # de @ '']'') - length r) (CHR '':'' # de @ '']''))) k)
          = None"
      by (rule rmatch_Rep1_fail) simp
    then have "rmatch (Cap 2 (Rep1 (\<lambda>c. c \<noteq> CHR '':''))) n (CHR '':'' # de @ '']'') c
            (\<lambda>r c'. rmatch ?rest n r c' k) = None"
      by (simp only: rmatch.simps)
    then have "rmatch (Opt (Cap 2 (Rep1 (\<lambda>c. c \<noteq> CHR '':'')))) n (CHR '':'' # de @ '']'') c
            (\<lambda>r c'. rmatch ?rest n r c' k) = rmatch ?rest n (CHR '':'' # de @ '']'') c k"
      by (rule rmatch_Opt_None)
    moreover have "rmatch ?rest n (CHR '':'' # de @ '']'') c k = Some v"
      using assms(2,3) by (rule rmatch_range_colon) (use assms(4) True in simp)
    ultimately show ?thesis
      using True by simp
  next
    case False
    have nc: "list_all (\<lambda>c. c \<noteq> CHR '':'') ds"
      using assms(1) isDigit_not_colon by (auto simp: list_all_iff)
    have "rmatch ?rest n (CHR '':'' # de @ '']'') (c(2 \<mapsto> ds)) k = Some v"
      using assms(2,3) by (rule rmatch_range_colon) (use assms(4) False in simp)
    moreover have tk: "take (length ?s - length (CHR '':'' # de @ '']'')) ?s = ds"
      by simp
    ultimately have "(\<lambda>r c'. rmatch ?rest n r (c'(2 \<mapsto> take (length ?s - length r) ?s)) k)
             (CHR '':'' # de @ '']'') c = Some v"
      by (simp only:)
    then have "rmatch (Rep1 (\<lambda>c. c \<noteq> CHR '':'')) n ?s c
            (\<lambda>r c'. rmatch ?rest n r (c'(2 \<mapsto> take (length ?s - length r) ?s)) k) = Some v"
      by (intro rmatch_Rep1_greedy [OF False nc]) simp_all
    then show ?thesis
      by (intro rmatch_Opt_Some) (simp only: rmatch.simps)
  qed
  then show ?thesis
    by (simp only: rmatch.simps)
qed

lemma FindStringSubmatch_range:
  assumes "list_all isDigit ds" and "de \<noteq> []" and "list_all isDigit de"
  shows "FindStringSubmatch argRe (CHR ''['' # ds @ CHR '':'' # de @ '']'')
         = [CHR ''['' # ds @ CHR '':'' # de @ '']'', [], ds, '':'', de]"
proof -
  let ?s = "CHR ''['' # ds @ CHR '':'' # de @ '']''"
  let ?rest = "Cat (Opt (Cap 2 (Rep1 (\<lambda>c. c \<noteq> CHR '':''))))
                (Cat (Opt (Cap 3 (lit (CHR '':''))))
                (Cat (Opt (Cap 4 (Rep1 (\<lambda>c. c \<noteq> CHR '']'')))) (lit (CHR '']''))))"
  let ?k = "\<lambda>r c. Some (c(0 \<mapsto> take (length ?s - length r) ?s))"
  let ?v = "((if ds = [] then Map.empty else Map.empty(2 \<mapsto> ds))(3 \<mapsto> '':'', 4 \<mapsto> de))(0 \<mapsto> ?s)"
  have "\<not> isDigit (CHR ''['')"
    by (simp add: isDigit_def byte_def)
  then have first: "rmatch (Cap 1 (Rep1 isDigit)) (length ?s) ?s Map.empty ?k = None"
    by simp
  have "rmatch ?rest (length ?s) (ds @ CHR '':'' # de @ '']'') Map.empty ?k = Some ?v"
    using assms by (rule rmatch_range_start) simp
  then have "rmatch (lit (CHR ''['')) (length ?s) ?s Map.empty
               (\<lambda>r c'. rmatch ?rest (length ?s) r c' ?k) = Some ?v"
    by (simp only: rmatch_lit)
  then have second: "rmatch (Cat (lit (CHR ''['')) ?rest) (length ?s) ?s Map.empty ?k = Some ?v"
    by (simp only: rmatch.simps)
  have "rmatch argRe (length ?s) ?s Map.empty ?k = Some ?v"
    unfolding argRe_def by (subst rmatch.simps) (simp only: first second option.simps)
  then have "match_here argRe (length ?s) ?s = Some ?v"
    by (simp only: match_here_def)
  then have "FindStringSubmatch argRe ?s = submatches argRe ?v"
    by (simp add: FindStringSubmatch_def)
  then show ?thesis
    by (simp add: submatches_def NumSubexp_argRe upt_5)
qed

lemma TrimSpace_brackets: "TrimSpace (CHR ''['' # t @ '']'') = CHR ''['' # t @ '']''"
  by (rule TrimSpace_ascii_ends) (simp_all add: byte_def asciiSpace_def)

lemma parseArg_range:
  assumes "list_all isDigit ds" and "digitsValue ds < 2 ^ 63"
    and "de \<noteq> []" and "list_all isDigit de" and "digitsValue de < 2 ^ 63"
  shows "parseArg (CHR ''['' # ds @ CHR '':'' # de @ '']'') spec
         = (spec\<lparr>Start := digitsValue ds, End := digitsValue de\<rparr>, digitsValue ds < digitsValue de)"
proof -
  let ?s = "CHR ''['' # ds @ CHR '':'' # de @ '']''"
  have trim: "TrimSpace ?s = ?s"
    using TrimSpace_brackets [of "ds @ CHR '':'' # de"] by simp
  have m: "FindStringSubmatch argRe ?s = [?s, [], ds, '':'', de]"
    using assms(1,3,4) by (rule FindStringSubmatch_range)
  have end_: "Atoi de = Some (digitsValue de)"
    using assms(3,4,5) by (simp add: Atoi_digits)
  have start: "ds \<noteq> [] \<Longrightarrow> Atoi ds = Some (digitsValue ds)"
    using assms(1,2) by (simp add: Atoi_digits)
  have zero: "digitsValue [] = 0"
    by (simp add: digitsValue_def)
  have nonneg: "0 \<le> digitsValue ds" "0 \<le> digitsValue de"
    by (rule digitsValue_nonneg)+
  show ?thesis
  proof (cases "ds = []")
    case True
    have trim0: "TrimSpace (CHR ''['' # CHR '':'' # de @ '']'') = CHR ''['' # CHR '':'' # de @ '']''"
      using trim True by simp
    have m0: "FindStringSubmatch argRe (CHR ''['' # CHR '':'' # de @ '']'')
              = [CHR ''['' # CHR '':'' # de @ '']'', [], [], '':'', de]"
      using m True by simp
    from nonneg True show ?thesis
      by (simp add: parseArg_def trim0 m0 end_ zero assms(3))
  next
    case False
    with nonneg show ?thesis
      by (simp add: parseArg_def trim m end_ start assms(3))
  qed
qed

lemma decompose_arg_brackets:
  assumes "CHR '';'' \<notin> set t"
  shows "decompose (''arg:['' @ t @ '']'') = (CHR ''['' # t @ '']'', [], [])"
proof -
  define v where "v = CHR ''['' # t @ '']''"
  define tag where "tag = ''arg:'' @ v"
  have nonempty: "tag \<noteq> []" and v_nonempty: "v \<noteq> []"
    by (simp_all add: tag_def v_def)
  have "CHR '';'' \<notin> set tag"
    using assms by (simp add: tag_def v_def)
  then have split: "Split tag (CHR '';'') = [tag]"
    by (rule Split_no_separator)
  have trim_v: "TrimSpace v = v"
    unfolding v_def by (rule TrimSpace_brackets)
  have "byte (last tag) < 128" and "\<not> asciiSpace (byte (last tag))"
    and "byte (hd tag) < 128" and "\<not> asciiSpace (byte (hd tag))"
    by (simp_all add: tag_def v_def byte_def asciiSpace_def)
  then have trim: "TrimSpace tag = tag"
    using nonempty by (intro TrimSpace_ascii_ends)
  have cut: "CutPrefix tag ''arg:'' = (v, True)"
    by (simp add: CutPrefix_def HasPrefix_def tag_def)
  have "decompose tag = (v, [], [])"
    unfolding decompose_def split
    using nonempty by (simp add: decompose_component_def trim cut trim_v)
  then show ?thesis
    by (simp add: tag_def v_def)
qed

lemma digits_no_semicolon: "list_all isDigit ds \<Longrightarrow> CHR '';'' \<notin> set ds"
  using isDigit_not_semicolon by (auto simp: list_all_iff)

lemma int_less_2_63: "n < 2 ^ 63 \<Longrightarrow> int n < 2 ^ 63"
  by (metis of_nat_less_iff of_nat_numeral of_nat_power)

text \<open>
  The bounded range on numerals that fit the type \<open>int\<close>.  Let \<open>S\<close> and \<open>E\<close> be natural
  numbers below \<open>2^63\<close>.  For every tag whose \<open>arg\<close> value is \<open>[S:E]\<close>, in particular the
  tag \<open>arg:[S:E]\<close>, \<open>Arg\<close> returns ok with \<open>{Start: S, End: E}\<close> when \<open>S < E\<close> and not-ok
  when \<open>E = S\<close> or \<open>E < S\<close>; with \<open>S\<close> omitted (\<open>[:E]\<close>) the start is 0.
\<close>

lemma Arg_bounded_range:
  assumes "S < 2 ^ 63" and "E < 2 ^ 63"
  shows "(fst (decompose tag) = ''['' @ decimal S @ '':'' @ decimal E @ '']''
            \<longrightarrow> Arg tag = (if S < E then Some \<lparr>Start = int S, End = int E\<rparr> else None))
       \<and> (fst (decompose tag) = ''[:'' @ decimal E @ '']''
            \<longrightarrow> Arg tag = (if 0 < E then Some \<lparr>Start = 0, End = int E\<rparr> else None))
       \<and> Arg (''arg:['' @ decimal S @ '':'' @ decimal E @ '']'')
           = (if S < E then Some \<lparr>Start = int S, End = int E\<rparr> else None)
       \<and> Arg (''arg:[:'' @ decimal E @ '']'')
           = (if 0 < E then Some \<lparr>Start = 0, End = int E\<rparr> else None)"
proof -
  have full: "parseArg (''['' @ decimal S @ '':'' @ decimal E @ '']'') \<lparr>Start = 0, End = 0\<rparr>
              = (\<lparr>Start = int S, End = int E\<rparr>, S < E)"
    using parseArg_range [of "decimal S" "decimal E" "\<lparr>Start = 0, End = 0\<rparr>"] assms
    by (simp add: decimal_digits decimal_nonempty digitsValue_decimal int_less_2_63)
  have "digitsValue [] = 0"
    by (simp add: digitsValue_def)
  then have omitted: "parseArg (''[:'' @ decimal E @ '']'') \<lparr>Start = 0, End = 0\<rparr>
              = (\<lparr>Start = 0, End = int E\<rparr>, 0 < E)"
    using parseArg_range [of "[]" "decimal E" "\<lparr>Start = 0, End = 0\<rparr>"] assms
    by (simp add: decimal_digits decimal_nonempty digitsValue_decimal int_less_2_63)
  have g1: "Arg t = (if S < E then Some \<lparr>Start = int S, End = int E\<rparr> else None)"
    if "fst (decompose t) = ''['' @ decimal S @ '':'' @ decimal E @ '']''" for t
    using that full by (cases "decompose t") (simp add: Arg_def)
  have g2: "Arg t = (if 0 < E then Some \<lparr>Start = 0, End = int E\<rparr> else None)"
    if "fst (decompose t) = ''[:'' @ decimal E @ '']''" for t
    using that omitted by (cases "decompose t") (simp add: Arg_def)
  have "CHR '';'' \<notin> set (decimal S @ '':'' @ decimal E)"
    using digits_no_semicolon [OF decimal_digits] by simp
  then have "decompose (''arg:['' @ (decimal S @ '':'' @ decimal E) @ '']'')
             = (CHR ''['' # (decimal S @ '':'' @ decimal E) @ '']'', [], [])"
    by (rule decompose_arg_brackets)
  then have d1: "fst (decompose (''arg:['' @ decimal S @ '':'' @ decimal E @ '']''))
             = ''['' @ decimal S @ '':'' @ decimal E @ '']''"
    by simp
  have "CHR '';'' \<notin> set ('':'' @ decimal E)"
    using digits_no_semicolon [OF decimal_digits] by simp
  then have "decompose (''arg:['' @ ('':'' @ decimal E) @ '']'')
             = (CHR ''['' # ('':'' @ decimal E) @ '']'', [], [])"
    by (rule decompose_arg_brackets)
  then have d2: "fst (decompose (''arg:[:'' @ decimal E @ '']'')) = ''[:'' @ decimal E @ '']''"
    by simp
  from g1 [of tag] g2 [of tag] g1 [OF d1] g2 [OF d2] show ?thesis
    by blast
qed

lemma Arg_bounded_range_examples:
  "Arg ''arg:[2:4]'' = Some \<lparr>Start = 2, End = 4\<rparr>
   \<and> Arg ''arg:[2:2]'' = None
   \<and> Arg ''arg:[4:2]'' = None
   \<and> Arg ''flag:f; arg: [:4]'' = Some \<lparr>Start = 0, End = 4\<rparr>"
proof -
  have d2: "decimal 2 = ''2''" and d4: "decimal 4 = ''4''"
    by code_simp+
  have b: "(2::nat) < 2 ^ 63" "(4::nat) < 2 ^ 63"
    by simp_all
  have v: "fst (decompose ''flag:f; arg: [:4]'') = ''[:'' @ decimal 4 @ '']''"
    unfolding d4 by code_simp
  from Arg_bounded_range [OF b(1) b(2), of "''flag:f; arg: [:4]''"]
       Arg_bounded_range [OF b(1) b(1), of "[]"]
       Arg_bounded_range [OF b(2) b(1), of "[]"] v
  show ?thesis
    by (simp add: d2 d4)
qed

section \<open>The two versions of sanitizeHelp\<close>

lemma single_spaced_tl: "single_spaced (x # s) \<Longrightarrow> single_spaced s"
  by (cases s) simp_all

lemma single_spaced_drop: "single_spaced s \<Longrightarrow> single_spaced (drop n s)"
proof (induction n arbitrary: s)
  case 0
  then show ?case by simp
next
  case (Suc n)
  then show ?case
    by (cases s) (auto dest: single_spaced_tl)
qed

lemma single_spaced_append:
  "list_all (\<lambda>c. \<not> reSpace c) cmd \<Longrightarrow> single_spaced rest \<Longrightarrow> single_spaced (cmd @ rest)"
proof (induction cmd)
  case Nil
  then show ?case by simp
next
  case (Cons c cmd)
  then have "single_spaced (cmd @ rest)" and "\<not> reSpace c"
    by simp_all
  moreover have "reSpace (CHR '' '')"
    by (simp add: reSpace_def byte_def)
  ultimately have "single_spaced (cmd @ rest)" and "\<not> reSpace c" and "c \<noteq> CHR '' ''"
    by auto
  then show ?case
    by (cases "cmd @ rest") simp_all
qed

lemma Replace1_prefix: "HasPrefix s old \<Longrightarrow> Replace1 s old new = new @ drop (length old) s"
  by (cases s) (auto simp: HasPrefix_def)

subsection \<open>White space at the end of a text\<close>

lemma strip_end_Cons [simp]:
  "strip_end (a # s) = (if reSpace a \<and> strip_end s = [] then [] else a # strip_end s)"
  by (simp split: list.split)

declare strip_end.simps(2) [simp del]

lemma strip_end_spaces: "list_all reSpace t \<Longrightarrow> strip_end t = []"
  by (induction t) simp_all

lemma strip_end_append_spaces: "list_all reSpace t \<Longrightarrow> strip_end (x @ t) = strip_end x"
  by (induction x) (simp_all add: strip_end_spaces)

lemma strip_end_decompose: "\<exists>t. list_all reSpace t \<and> x = strip_end x @ t"
proof (induction x)
  case Nil
  show ?case by simp
next
  case (Cons a x)
  then obtain t where t: "list_all reSpace t" "x = strip_end x @ t" by blast
  show ?case
  proof (cases "reSpace a \<and> strip_end x = []")
    case True
    with t have "list_all reSpace (a # t) \<and> a # x = strip_end (a # x) @ (a # t)"
      by simp
    then show ?thesis by blast
  next
    case False
    with t have "list_all reSpace t \<and> a # x = strip_end (a # x) @ t"
      by auto
    then show ?thesis by blast
  qed
qed

lemma dropWhile_spaces: "list_all reSpace t \<Longrightarrow> dropWhile reSpace t = []"
  by (induction t) simp_all

lemma ReplaceAllSpaceRuns_spaces:
  "list_all reSpace t \<Longrightarrow> list_all reSpace (ReplaceAllSpaceRuns t)"
proof (cases t)
  case Nil
  then show ?thesis by simp
next
  case (Cons c t')
  assume "list_all reSpace t"
  with Cons have "ReplaceAllSpaceRuns t = '' ''"
    by (simp add: dropWhile_spaces)
  then show ?thesis
    by (simp add: reSpace_def byte_def)
qed

text \<open>
  Collapsing the runs of a single-spaced text followed by white space changes only the
  white space at the end.
\<close>

lemma ReplaceAllSpaceRuns_single_spaced_end:
  "single_spaced x \<Longrightarrow> list_all reSpace t
   \<Longrightarrow> \<exists>w. list_all reSpace w \<and> ReplaceAllSpaceRuns (x @ t) = strip_end x @ w"
proof (induction x rule: single_spaced.induct)
  case 1
  then have "list_all reSpace (ReplaceAllSpaceRuns t)"
    by (simp add: ReplaceAllSpaceRuns_spaces)
  then show ?case by simp
next
  case (2 a)
  show ?case
  proof (cases "reSpace a")
    case True
    with 2 have "ReplaceAllSpaceRuns ([a] @ t) = '' ''"
      by (simp add: dropWhile_spaces)
    moreover have "list_all reSpace '' ''"
      by (simp add: reSpace_def byte_def)
    ultimately show ?thesis
      using True by simp
  next
    case False
    with 2 have "list_all reSpace (ReplaceAllSpaceRuns t)"
      and "ReplaceAllSpaceRuns ([a] @ t) = strip_end [a] @ ReplaceAllSpaceRuns t"
      by (simp_all add: ReplaceAllSpaceRuns_spaces)
    then show ?thesis by blast
  qed
next
  case (3 a b s)
  then have ss: "single_spaced (b # s)" and a: "reSpace a = (a = CHR '' '' \<and> \<not> reSpace b)"
    by simp_all
  from "3.IH" [OF ss "3.prems"(2)] obtain w
    where w: "list_all reSpace w" "ReplaceAllSpaceRuns ((b # s) @ t) = strip_end (b # s) @ w"
    by blast
  show ?case
  proof (cases "reSpace a")
    case True
    with a have "a = CHR '' ''" and b: "\<not> reSpace b" by simp_all
    with True w have "ReplaceAllSpaceRuns ((a # b # s) @ t) = strip_end (a # b # s) @ w"
      by simp
    with w(1) show ?thesis by blast
  next
    case False
    with w have "ReplaceAllSpaceRuns ((a # b # s) @ t) = strip_end (a # b # s) @ w"
      by simp
    with w(1) show ?thesis by blast
  qed
qed


subsection \<open>Trimming a text followed by white space\<close>

lemma reSpace_ascii: "reSpace c \<Longrightarrow> asciiSpace (byte c)"
  by (auto simp: reSpace_def asciiSpace_def)

lemma leadingSpace_asciiSpace: "asciiSpace (byte c) \<Longrightarrow> leadingSpace (c # r) = 1"
proof (cases r)
  case Nil
  then show "asciiSpace (byte c) \<Longrightarrow> leadingSpace (c # r) = 1" by simp
next
  case (Cons b t)
  then show "asciiSpace (byte c) \<Longrightarrow> leadingSpace (c # r) = 1" by (cases t) simp_all
qed

lemma trailingSpace_asciiSpace: "asciiSpace (byte c) \<Longrightarrow> trailingSpace (c # r) = 1"
proof (cases r)
  case Nil
  then show "asciiSpace (byte c) \<Longrightarrow> trailingSpace (c # r) = 1" by simp
next
  case (Cons b t)
  then show "asciiSpace (byte c) \<Longrightarrow> trailingSpace (c # r) = 1" by (cases t) simp_all
qed

lemma TrimLeft_spaces: "list_all reSpace w \<Longrightarrow> TrimLeft w = []"
proof (induction w)
  case Nil
  show ?case by (subst TrimLeft.simps) simp
next
  case (Cons c w)
  then have "leadingSpace (c # w) = 1"
    by (simp add: leadingSpace_asciiSpace reSpace_ascii)
  with Cons show ?case
    by (subst TrimLeft.simps) simp
qed

lemma TrimRightRev_spaces: "list_all reSpace u \<Longrightarrow> TrimRightRev (u @ r) = TrimRightRev r"
proof (induction u)
  case Nil
  show ?case by simp
next
  case (Cons c u)
  then have "trailingSpace (c # u @ r) = 1"
    by (simp add: trailingSpace_asciiSpace reSpace_ascii)
  with Cons show ?case
    by (subst TrimRightRev.simps) simp
qed

lemma TrimRight_append_spaces: "list_all reSpace w \<Longrightarrow> TrimRight (z @ w) = TrimRight z"
  by (simp add: TrimRight_def TrimRightRev_spaces)

lemma asciiSpace_not_space2: "asciiSpace b \<Longrightarrow> \<not> space2 a b"
  by (auto simp: asciiSpace_def space2_def)

lemma asciiSpace_not_space3: "asciiSpace c \<Longrightarrow> \<not> space3 a b c"
  by (auto simp: asciiSpace_def space3_def)

lemma asciiSpace_not_space3_mid: "asciiSpace b \<Longrightarrow> \<not> space3 a b c"
  by (auto simp: asciiSpace_def space3_def)

lemma leadingSpace_append_spaces:
  assumes "y \<noteq> []" and "list_all reSpace w"
  shows "leadingSpace (y @ w) = leadingSpace y"
proof -
  from assms(1) obtain a y1 where y: "y = a # y1" by (cases y) auto
  show ?thesis
  proof (cases y1)
    case Nil
    note y1 = Nil
    show ?thesis
    proof (cases w)
      case Nil
      then show ?thesis by simp
    next
      case (Cons b w1)
      with assms(2) have b: "asciiSpace (byte b)" by (simp add: reSpace_ascii)
      show ?thesis
      proof (cases w1)
        case Nil
        with b show ?thesis
          by (simp add: y y1 \<open>w = b # w1\<close> asciiSpace_not_space2)
      next
        case (Cons c w2)
        with b show ?thesis
          by (simp add: y y1 \<open>w = b # w1\<close> asciiSpace_not_space2 asciiSpace_not_space3_mid)
      qed
    qed
  next
    case (Cons b y2)
    note y1 = Cons
    show ?thesis
    proof (cases y2)
      case Nil
      note y2 = Nil
      show ?thesis
      proof (cases w)
        case Nil
        then show ?thesis by simp
      next
        case (Cons c w1)
        with assms(2) have "asciiSpace (byte c)" by (simp add: reSpace_ascii)
        then show ?thesis
          by (simp add: y y1 y2 \<open>w = c # w1\<close> asciiSpace_not_space3)
      qed
    next
      case (Cons c y3)
      then show ?thesis
        by (simp add: y y1)
    qed
  qed
qed

lemma leadingSpace_le_length: "leadingSpace s \<le> length s"
  by (induction s rule: leadingSpace.induct) simp_all

lemma TrimLeft_append_spaces:
  "list_all reSpace w \<Longrightarrow> TrimLeft (y @ w) = (if TrimLeft y = [] then [] else TrimLeft y @ w)"
proof (induction y rule: TrimLeft.induct)
  case (1 y)
  show ?case
  proof (cases "y = []")
    case True
    with "1.prems" show ?thesis
      by (simp add: TrimLeft_spaces)
  next
    case False
    then have same: "leadingSpace (y @ w) = leadingSpace y"
      using "1.prems" by (rule leadingSpace_append_spaces)
    show ?thesis
    proof (cases "leadingSpace y = 0")
      case True
      then have "TrimLeft y = y" and "TrimLeft (y @ w) = y @ w"
        using same by (subst TrimLeft.simps, simp)+
      with False show ?thesis by simp
    next
      case nz: False
      have le: "leadingSpace y \<le> length y"
        by (rule leadingSpace_le_length)
      have "TrimLeft (y @ w) = TrimLeft (drop (leadingSpace y) (y @ w))"
        using nz same by (subst TrimLeft.simps) simp
      also have "\<dots> = TrimLeft (drop (leadingSpace y) y @ w)"
        using le by simp
      also have "\<dots> = (if TrimLeft (drop (leadingSpace y) y) = [] then []
                       else TrimLeft (drop (leadingSpace y) y) @ w)"
        using nz "1.prems" by (rule "1.IH")
      also have "TrimLeft (drop (leadingSpace y) y) = TrimLeft y"
        using nz by (subst (2) TrimLeft.simps) simp
      finally show ?thesis .
    qed
  qed
qed

lemma TrimRight_Nil: "TrimRight [] = []"
  by (simp add: TrimRight_def TrimRightRev.simps)

lemma TrimSpace_append_spaces: "list_all reSpace w \<Longrightarrow> TrimSpace (y @ w) = TrimSpace y"
  by (simp add: TrimSpace_def TrimLeft_append_spaces TrimRight_append_spaces TrimRight_Nil)


subsection \<open>The two versions agree\<close>

lemma list_all_drop: "list_all P t \<Longrightarrow> list_all P (drop n t)"
  by (auto simp: list_all_iff dest: in_set_dropD)

lemma spaced_drop:
  assumes "single_spaced x" and "list_all reSpace t"
  shows "\<exists>x' t'. drop n (x @ t) = x' @ t' \<and> single_spaced x' \<and> list_all reSpace t'"
proof -
  have "drop n (x @ t) = drop n x @ drop (n - length x) t"
    by simp
  moreover have "single_spaced (drop n x)"
    using assms(1) by (rule single_spaced_drop)
  moreover have "list_all reSpace (drop (n - length x) t)"
    using assms(2) by (rule list_all_drop)
  ultimately show ?thesis by blast
qed

lemma spaced_same_trim:
  assumes "single_spaced x" and "list_all reSpace t"
  shows "TrimSpace (ReplaceAllSpaceRuns (x @ t)) = TrimSpace (x @ t)"
proof -
  from ReplaceAllSpaceRuns_single_spaced_end [OF assms] obtain w
    where w: "list_all reSpace w" "ReplaceAllSpaceRuns (x @ t) = strip_end x @ w"
    by blast
  from strip_end_decompose [of x] obtain u
    where u: "list_all reSpace u" "x = strip_end x @ u"
    by blast
  have "TrimSpace (ReplaceAllSpaceRuns (x @ t)) = TrimSpace (strip_end x)"
    using w by (simp add: TrimSpace_append_spaces)
  moreover have "x @ t = strip_end x @ (u @ t)"
    using u(2) by simp
  then have "TrimSpace (x @ t) = TrimSpace (strip_end x)"
    using u(1) assms(2) by (simp only: TrimSpace_append_spaces list_all_append simp_thms)
  ultimately show ?thesis by simp
qed

text \<open>
  C10, as the code has it.  The two versions of \<open>sanitizeHelp\<close> return the same string
  for every doc comment that is single-spaced up to the white space at its end and
  every command name without white space: there the version of src/meta/meta.go finds
  no run of white space to collapse but the one that both versions trim.  Collapsing
  is the one step the version of src/cliche.go does not have.
\<close>

theorem sanitizeHelp_versions_agree:
  assumes "single_spaced (strip_end doc)" and "list_all (\<lambda>c. \<not> reSpace c) cmd"
  shows "sanitizeHelp doc pkg cmd = cliche_sanitizeHelp doc pkg cmd"
proof -
  define doc1 where "doc1 = fst (CutPrefix doc ''Package '')"
  define doc2 where "doc2 = (if HasPrefix doc1 pkg then Replace1 doc1 pkg cmd else doc1)"
  from strip_end_decompose [of doc] obtain t
    where t: "list_all reSpace t" "doc = strip_end doc @ t"
    by blast
  have "\<exists>x' t'. drop n doc = x' @ t' \<and> single_spaced x' \<and> list_all reSpace t'" for n
    using spaced_drop [OF assms(1) t(1), of n] t(2) by simp
  moreover have "doc1 = drop 0 doc \<or> doc1 = drop (length ''Package '') doc"
    by (simp add: doc1_def CutPrefix_def)
  ultimately obtain x1 t1
    where d1: "doc1 = x1 @ t1" "single_spaced x1" "list_all reSpace t1"
    by metis
  have "\<exists>x2 t2. doc2 = x2 @ t2 \<and> single_spaced x2 \<and> list_all reSpace t2"
  proof (cases "HasPrefix doc1 pkg")
    case True
    from spaced_drop [OF d1(2,3), of "length pkg"] obtain x' t'
      where r: "drop (length pkg) doc1 = x' @ t'" "single_spaced x'" "list_all reSpace t'"
      unfolding d1(1) by blast
    from True have "doc2 = (cmd @ x') @ t'"
      by (simp add: doc2_def Replace1_prefix r(1))
    moreover have "single_spaced (cmd @ x')"
      using assms(2) r(2) by (rule single_spaced_append)
    ultimately show ?thesis
      using r(3) by blast
  next
    case False
    then have "doc2 = x1 @ t1"
      by (simp add: doc2_def d1(1))
    with d1(2,3) show ?thesis by blast
  qed
  then obtain x2 t2
    where d2: "doc2 = x2 @ t2" "single_spaced x2" "list_all reSpace t2"
    by blast
  have same: "TrimSpace (ReplaceAllSpaceRuns doc2) = TrimSpace doc2"
    unfolding d2(1) using d2(2,3) by (rule spaced_same_trim)
  have "sanitizeHelp doc pkg cmd = (if doc1 = [] then [] else TrimSpace (ReplaceAllSpaceRuns doc2))"
    by (simp add: sanitizeHelp_def doc1_def doc2_def Let_def)
  moreover have "cliche_sanitizeHelp doc pkg cmd = (if doc1 = [] then [] else TrimSpace doc2)"
    by (simp add: cliche_sanitizeHelp_def doc1_def doc2_def Let_def)
  ultimately show ?thesis
    by (simp only: same)
qed

theorem sanitizeHelp_versions_agree_witness:
  "sanitizeHelp (''Package simple is a simple test.'' @ [CHR 0x0A]) ''simple'' ''simple''
     = cliche_sanitizeHelp (''Package simple is a simple test.'' @ [CHR 0x0A]) ''simple'' ''simple''
   \<and> cliche_sanitizeHelp (''Package simple is a simple test.'' @ [CHR 0x0A]) ''simple'' ''simple''
     = ''simple is a simple test.''"
proof -
  have a: "single_spaced (strip_end (''Package simple is a simple test.'' @ [CHR 0x0A]))"
    by code_simp
  have b: "list_all (\<lambda>c. \<not> reSpace c) ''simple''"
    by code_simp
  have c: "cliche_sanitizeHelp (''Package simple is a simple test.'' @ [CHR 0x0A]) ''simple'' ''simple''
           = ''simple is a simple test.''"
    by code_simp
  from sanitizeHelp_versions_agree [OF a b, of "''simple''"] c show ?thesis
    by simp
qed

theorem sanitizeHelp_versions_differ:
  "sanitizeHelp (''Package simple is a'' @ [CHR 0x0A] @ ''simple test.'') ''simple'' ''simple''
     = ''simple is a simple test.''
   \<and> cliche_sanitizeHelp (''Package simple is a'' @ [CHR 0x0A] @ ''simple test.'') ''simple'' ''simple''
     = ''simple is a'' @ [CHR 0x0A] @ ''simple test.''
   \<and> sanitizeHelp (''Package simple is a'' @ [CHR 0x0A] @ ''simple test.'') ''simple'' ''simple''
     \<noteq> cliche_sanitizeHelp (''Package simple is a'' @ [CHR 0x0A] @ ''simple test.'') ''simple'' ''simple''"
proof -
  have a: "sanitizeHelp (''Package simple is a'' @ [CHR 0x0A] @ ''simple test.'') ''simple'' ''simple''
     = ''simple is a simple test.''"
    by code_simp
  have b: "cliche_sanitizeHelp (''Package simple is a'' @ [CHR 0x0A] @ ''simple test.'') ''simple'' ''simple''
     = ''simple is a'' @ [CHR 0x0A] @ ''simple test.''"
    by code_simp
  show ?thesis
    unfolding a b by simp
qed

section \<open>Default\<close>

subsection \<open>Values that are already trimmed\<close>

lemma TrimLeft_length: "length (TrimLeft s) \<le> length s"
proof (induction s rule: TrimLeft.induct)
  case (1 s)
  show ?case
  proof (cases "leadingSpace s = 0")
    case True
    then show ?thesis by (subst TrimLeft.simps) simp
  next
    case False
    with "1.IH" have "length (TrimLeft (drop (leadingSpace s) s)) \<le> length s"
      by simp
    with False show ?thesis by (subst TrimLeft.simps) simp
  qed
qed

lemma TrimLeft_fixed: "length (TrimLeft s) = length s \<Longrightarrow> leadingSpace s = 0"
proof (rule ccontr)
  assume len: "length (TrimLeft s) = length s" and n: "leadingSpace s \<noteq> 0"
  have "s \<noteq> []" using n by (cases s) auto
  from n have "TrimLeft s = TrimLeft (drop (leadingSpace s) s)"
    by (subst TrimLeft.simps) simp
  then have "length (TrimLeft s) \<le> length (drop (leadingSpace s) s)"
    using TrimLeft_length [of "drop (leadingSpace s) s"] by simp
  also have "\<dots> < length s"
    using n \<open>s \<noteq> []\<close> by simp
  finally show False using len by simp
qed

lemma TrimRightRev_length: "length (TrimRightRev r) \<le> length r"
proof (induction r rule: TrimRightRev.induct)
  case (1 r)
  show ?case
  proof (cases "trailingSpace r = 0")
    case True
    then show ?thesis by (subst TrimRightRev.simps) simp
  next
    case False
    with "1.IH" have "length (TrimRightRev (drop (trailingSpace r) r)) \<le> length r"
      by simp
    with False show ?thesis by (subst TrimRightRev.simps) simp
  qed
qed

lemma TrimRightRev_fixed: "length (TrimRightRev r) = length r \<Longrightarrow> trailingSpace r = 0"
proof (rule ccontr)
  assume len: "length (TrimRightRev r) = length r" and n: "trailingSpace r \<noteq> 0"
  have "r \<noteq> []" using n by (cases r) auto
  from n have "TrimRightRev r = TrimRightRev (drop (trailingSpace r) r)"
    by (subst TrimRightRev.simps) simp
  then have "length (TrimRightRev r) \<le> length (drop (trailingSpace r) r)"
    using TrimRightRev_length [of "drop (trailingSpace r) r"] by simp
  also have "\<dots> < length r"
    using n \<open>r \<noteq> []\<close> by simp
  finally show False using len by simp
qed

lemma TrimSpace_fixed:
  assumes "TrimSpace v = v"
  shows "leadingSpace v = 0" and "trailingSpace (rev v) = 0"
proof -
  have "length v = length (TrimRightRev (rev (TrimLeft v)))"
    using assms by (metis TrimSpace_def TrimRight_def length_rev)
  also have "\<dots> \<le> length (TrimLeft v)"
    using TrimRightRev_length [of "rev (TrimLeft v)"] by simp
  finally have "length (TrimLeft v) = length v"
    using TrimLeft_length [of v] by simp
  then show l: "leadingSpace v = 0"
    by (rule TrimLeft_fixed)
  then have "TrimLeft v = v"
    by (subst TrimLeft.simps) simp
  with assms have "rev (TrimRightRev (rev v)) = v"
    by (simp add: TrimSpace_def TrimRight_def)
  then have "length (TrimRightRev (rev v)) = length (rev v)"
    by (metis length_rev)
  then show "trailingSpace (rev v) = 0"
    by (rule TrimRightRev_fixed)
qed

lemma space2_ascii: "b < 128 \<Longrightarrow> \<not> space2 b a"
  by (simp add: space2_def)

lemma space3_ascii: "c < 128 \<Longrightarrow> \<not> space3 c b a"
  by (auto simp: space3_def)

text \<open>ASCII text before a trimmed text does not make its end white space.\<close>

lemma trailingSpace_append_ascii:
  assumes "trailingSpace r = 0" and "r \<noteq> []" and "list_all (\<lambda>c. byte c < 128) q"
  shows "trailingSpace (r @ q) = 0"
proof -
  from assms(2) obtain a r1 where r: "r = a # r1" by (cases r) auto
  show ?thesis
  proof (cases r1)
    case Nil
    note r1 = Nil
    show ?thesis
    proof (cases q)
      case Nil
      with assms(1) show ?thesis by simp
    next
      case (Cons b q1)
      with assms show ?thesis
        by (cases q1) (auto simp: r r1 space2_ascii space3_ascii split: if_splits)
    qed
  next
    case (Cons b r2)
    note r1 = Cons
    show ?thesis
    proof (cases r2)
      case Nil
      show ?thesis
      proof (cases q)
        case Nil
        with assms(1) show ?thesis by simp
      next
        case (Cons c q1)
        with assms show ?thesis
          by (auto simp: r r1 \<open>r2 = []\<close> space3_ascii split: if_splits)
      qed
    next
      case (Cons c r3)
      with assms(1) show ?thesis
        by (simp add: r r1)
    qed
  qed
qed

lemma decompose_default_value:
  assumes "CHR '';'' \<notin> set v" and "v \<noteq> []" and "TrimSpace v = v"
  shows "decompose (''default:'' @ v) = ([], v, [])"
proof -
  define tag where "tag = ''default:'' @ v"
  have nonempty: "tag \<noteq> []"
    by (simp add: tag_def)
  have "CHR '';'' \<notin> set tag"
    using assms(1) by (simp add: tag_def)
  then have split: "Split tag (CHR '';'') = [tag]"
    by (rule Split_no_separator)
  have lead: "leadingSpace tag = 0"
    unfolding tag_def by (simp add: byte_def asciiSpace_def space2_def space3_def)
  have "trailingSpace (rev v @ rev ''default:'') = 0"
    using TrimSpace_fixed(2) [OF assms(3)] assms(2)
    by (intro trailingSpace_append_ascii) (simp_all add: byte_def)
  then have trail: "trailingSpace (rev tag) = 0"
    by (simp add: tag_def)
  have trim: "TrimSpace tag = tag"
    using lead trail by (rule TrimSpace_id)
  have cut: "CutPrefix tag ''arg:'' = (tag, False)" "CutPrefix tag ''flag:'' = (tag, False)"
    "CutPrefix tag ''default:'' = (v, True)"
    by (simp_all add: CutPrefix_def HasPrefix_def tag_def)
  have "decompose tag = ([], v, [])"
    unfolding decompose_def split
    using nonempty by (simp add: decompose_component_def trim cut assms(3))
  then show ?thesis
    by (simp only: tag_def)
qed

text \<open>
  C8.  \<open>Default\<close> returns the value of the \<open>default\<close> directive with ok when that value
  is not empty, and not-ok when the directive is absent or its value is empty.  The
  value is returned as it is written: for every text \<open>v\<close> that is not empty, holds no
  semicolon and has no white space around it, \<open>Default("default:" + v)\<close> is \<open>v\<close>, quotes
  included.
\<close>

theorem Default_value_iff_nonempty:
  "Default tag =
     (if directive ''default:'' (Split tag (CHR '';'')) = [] then None
      else Some (directive ''default:'' (Split tag (CHR '';''))))
   \<and> (CHR '';'' \<notin> set v \<and> v \<noteq> [] \<and> TrimSpace v = v \<longrightarrow> Default (''default:'' @ v) = Some v)
   \<and> Default ''default:BAR'' = Some ''BAR''
   \<and> Default ''default:'' = None
   \<and> Default [] = None"
proof (intro conjI impI)
  show "Default tag =
     (if directive ''default:'' (Split tag (CHR '';'')) = [] then None
      else Some (directive ''default:'' (Split tag (CHR '';''))))"
    by (simp add: Default_def decompose_directive)
next
  assume a: "CHR '';'' \<notin> set v \<and> v \<noteq> [] \<and> TrimSpace v = v"
  then have "decompose (''default:'' @ v) = ([], v, [])"
    by (intro decompose_default_value) simp_all
  with a show "Default (''default:'' @ v) = Some v"
    by (simp only: Default_def prod.case) simp
next
  show "Default ''default:BAR'' = Some ''BAR''" by code_simp
next
  show "Default ''default:'' = None" by code_simp
next
  show "Default [] = None" by code_simp
qed

theorem Default_value_iff_nonempty_witness:
  "CHR '';'' \<notin> set ([CHR 0x22] @ ''foo'' @ [CHR 0x22])
   \<and> TrimSpace ([CHR 0x22] @ ''foo'' @ [CHR 0x22]) = [CHR 0x22] @ ''foo'' @ [CHR 0x22]
   \<and> Default (''default:'' @ [CHR 0x22] @ ''foo'' @ [CHR 0x22]) = Some ([CHR 0x22] @ ''foo'' @ [CHR 0x22])"
proof -
  have a: "CHR '';'' \<notin> set ([CHR 0x22] @ ''foo'' @ [CHR 0x22])"
    by simp
  have b: "TrimSpace ([CHR 0x22] @ ''foo'' @ [CHR 0x22]) = [CHR 0x22] @ ''foo'' @ [CHR 0x22]"
    by code_simp
  have c: "[CHR 0x22] @ ''foo'' @ [CHR 0x22] \<noteq> []"
    by simp
  from Default_value_iff_nonempty [of "[]" "[CHR 0x22] @ ''foo'' @ [CHR 0x22]"] a b c
  have "Default (''default:'' @ [CHR 0x22] @ ''foo'' @ [CHR 0x22]) = Some ([CHR 0x22] @ ''foo'' @ [CHR 0x22])"
    by blast
  with a b show ?thesis by blast
qed

section \<open>The bounded range beyond the type int\<close>

text \<open>
  C7.  The value \<open>[9223372036854775808:5]\<close> has the form \<open>[S:E]\<close> with \<open>E < S\<close>, yet \<open>Arg\<close>
  returns ok, with \<open>{Start: 0, End: 5}\<close>: \<open>Atoi\<close> fails on the start, which does not fit
  the type \<open>int\<close>, \<open>Start\<close> keeps its zero value, and the error of the start is
  overwritten by the result of parsing the end, so that only the end is checked.
\<close>

theorem Arg_range_start_error_overwritten:
  "Arg ''arg:[9223372036854775808:5]'' = Some \<lparr>Start = 0, End = 5\<rparr>"
  by code_simp

end
